theory Spec2Isabelle
  imports Complex_Main "HOL-Library.Multiset"
begin

section \<open>Python values, exceptions and floats\<close>

text \<open>
  The server in \<^verbatim>\<open>src/main.py\<close> is a flat set of stateless functions over dynamically
  typed arguments. An argument is one of the Python values below; a call either returns
  a value or raises, which the model writes as a value of \<open>error + 'a\<close>.

  \<open>PFloat r\<close> is the finite float of value \<open>r\<close>; an argument that is an infinity or a NaN
  is not a value of this type. \<open>PStr s\<close> is a string of characters with code points below
  256, each \<open>char\<close> read as its code point; strings with other characters are not values
  of this type.
\<close>

datatype pyval =
    PNone
  | PBool bool
  | PInt int
  | PFloat real
  | PStr string

text \<open>
  The first eight constructors are the exceptions that a \<^verbatim>\<open>raise\<close> statement of the
  source raises, under the names the specification gives them:
  \<^item> \<open>InvalidNumber x\<close>: \<^verbatim>\<open>TypeError(f"Invalid number: {x}")\<close>, line 20;
  \<^item> \<open>NotAnInteger\<close>: \<^verbatim>\<open>ValueError("Expected integer")\<close>, line 26;
  \<^item> \<open>EmptyInput\<close>: \<^verbatim>\<open>ValueError("Input list cannot be empty")\<close>, lines 32, 174, 181;
  \<^item> \<open>DivisionByZero\<close>: \<^verbatim>\<open>ValueError("Division by zero")\<close>, lines 65, 77;
  \<^item> \<open>NegativeInput\<close>: the \<^verbatim>\<open>ValueError\<close>s of lines 98, 128, 214;
  \<^item> \<open>NonPositiveInput\<close>: \<^verbatim>\<open>ValueError("Logarithm input must be positive.")\<close>, lines 110, 118;
  \<^item> \<open>InsufficientData\<close>: the \<^verbatim>\<open>ValueError\<close>s of lines 188, 195;
  \<^item> \<open>DimensionMismatch\<close>: the \<^verbatim>\<open>ValueError\<close> of line 269.

  The others are raised by the Python runtime or its standard library, at no
  \<^verbatim>\<open>raise\<close> of the source: \<open>PyValueError\<close> (\<^verbatim>\<open>float\<close> of a string that is no
  numeric literal, a math domain error, the integer part of a NaN), \<open>PyZeroDivisionError\<close>,
  \<open>PyOverflowError\<close> (\<^verbatim>\<open>float\<close> of an integer beyond the floats, a result too large
  for a float, the integer part of an infinity), \<open>PyTypeError\<close> (an operator or a
  \<^verbatim>\<open>statistics\<close> routine applied to a value of the wrong type), \<open>PyIndexError\<close> and
  \<open>PyStatisticsError\<close> (\<^verbatim>\<open>statistics.StatisticsError\<close>).
\<close>

datatype error =
    InvalidNumber pyval
  | NotAnInteger
  | EmptyInput
  | DivisionByZero
  | NegativeInput
  | NonPositiveInput
  | InsufficientData
  | DimensionMismatch
  | PyValueError
  | PyZeroDivisionError
  | PyOverflowError
  | PyTypeError
  | PyIndexError
  | PyStatisticsError

fun named_kind :: "error \<Rightarrow> bool" where
  "named_kind (InvalidNumber x) = True"
| "named_kind NotAnInteger = True"
| "named_kind EmptyInput = True"
| "named_kind DivisionByZero = True"
| "named_kind NegativeInput = True"
| "named_kind NonPositiveInput = True"
| "named_kind InsufficientData = True"
| "named_kind DimensionMismatch = True"
| "named_kind e = False"

subsection \<open>Floats\<close>

text \<open>
  A Python float is an IEEE 754 binary64 number: a finite number, given by the real it
  denotes, an infinity (\<open>Infinity True\<close> is the negative one) or a NaN. The two zeros are
  one value, \<open>Fin 0\<close>: no tool of the server tells them apart.
\<close>

datatype pyfloat = Fin real | Infinity bool | NaN

abbreviation PosInf :: pyfloat where
  "PosInf \<equiv> Infinity False"

abbreviation NegInf :: pyfloat where
  "NegInf \<equiv> Infinity True"

text \<open>
  \<open>round53 x\<close> rounds \<open>x\<close> to the nearest number with a 53-bit significand, ties to the even
  significand. \<open>binary64 x\<close> is the float an operation returns whose exact result is \<open>x\<close>:
  below \<open>2\<^sup>-\<^sup>1\<^sup>0\<^sup>2\<^sup>2\<close> the floats are the multiples of \<open>2\<^sup>-\<^sup>1\<^sup>0\<^sup>7\<^sup>4\<close> (subnormal numbers, and
  underflow to zero), and a result that rounds to \<open>2\<^sup>1\<^sup>0\<^sup>2\<^sup>4\<close> or beyond is an infinity.
\<close>

definition expo :: "real \<Rightarrow> int" where
  "expo x = \<lfloor>log 2 \<bar>x\<bar>\<rfloor>"

definition ulp :: "real \<Rightarrow> real" where
  "ulp x = 2 powr of_int (expo x - 52)"

definition rne :: "real \<Rightarrow> int" where
  "rne x = (let f = \<lfloor>x\<rfloor>; d = x - of_int f
            in if d < 1 / 2 then f
               else if 1 / 2 < d then f + 1
               else if even f then f else f + 1)"

definition round53 :: "real \<Rightarrow> real" where
  "round53 x = (if x = 0 then 0 else of_int (rne (x / ulp x)) * ulp x)"

definition binary64 :: "real \<Rightarrow> pyfloat" where
  "binary64 x =
     (if \<bar>x\<bar> < 1 / 2 ^ 1022 then Fin (of_int (rne (x * 2 ^ 1074)) / 2 ^ 1074)
      else if 2 ^ 1024 \<le> \<bar>round53 x\<bar> then Infinity (x < 0)
      else Fin (round53 x))"

text \<open>The arithmetic of IEEE 754 on these values.\<close>

fun fneg :: "pyfloat \<Rightarrow> pyfloat" where
  "fneg (Fin a) = Fin (- a)"
| "fneg (Infinity s) = Infinity (\<not> s)"
| "fneg NaN = NaN"

fun fabs :: "pyfloat \<Rightarrow> pyfloat" where
  "fabs (Fin a) = Fin \<bar>a\<bar>"
| "fabs (Infinity s) = PosInf"
| "fabs NaN = NaN"

fun fadd :: "pyfloat \<Rightarrow> pyfloat \<Rightarrow> pyfloat" where
  "fadd (Fin a) (Fin b) = binary64 (a + b)"
| "fadd (Fin a) (Infinity t) = Infinity t"
| "fadd (Infinity s) (Fin b) = Infinity s"
| "fadd (Infinity s) (Infinity t) = (if s = t then Infinity s else NaN)"
| "fadd NaN b = NaN"
| "fadd a NaN = NaN"

definition fsub :: "pyfloat \<Rightarrow> pyfloat \<Rightarrow> pyfloat" where
  "fsub a b = fadd a (fneg b)"

fun fmul :: "pyfloat \<Rightarrow> pyfloat \<Rightarrow> pyfloat" where
  "fmul (Fin a) (Fin b) = binary64 (a * b)"
| "fmul (Fin a) (Infinity t) = (if a = 0 then NaN else Infinity (t \<noteq> (a < 0)))"
| "fmul (Infinity s) (Fin b) = (if b = 0 then NaN else Infinity (s \<noteq> (b < 0)))"
| "fmul (Infinity s) (Infinity t) = Infinity (s \<noteq> t)"
| "fmul NaN b = NaN"
| "fmul a NaN = NaN"

text \<open>
  Division by a divisor that is not zero. Python's \<^verbatim>\<open>/\<close> (\<open>py_truediv\<close>) raises
  \<^verbatim>\<open>ZeroDivisionError\<close> for a zero divisor before it divides, so \<open>fdiv\<close> is never taken
  at one; the value written there is that of zero divided by zero.
\<close>

fun fdiv :: "pyfloat \<Rightarrow> pyfloat \<Rightarrow> pyfloat" where
  "fdiv (Fin a) (Fin b) = (if b = 0 then NaN else binary64 (a / b))"
| "fdiv (Fin a) (Infinity t) = Fin 0"
| "fdiv (Infinity s) (Fin b) = Infinity (s \<noteq> (b < 0))"
| "fdiv (Infinity s) (Infinity t) = NaN"
| "fdiv NaN b = NaN"
| "fdiv a NaN = NaN"

definition py_truediv :: "pyfloat \<Rightarrow> pyfloat \<Rightarrow> error + pyfloat" where
  "py_truediv a b = (if b = Fin 0 then Inl PyZeroDivisionError else Inr (fdiv a b))"

text \<open>The comparisons \<^verbatim>\<open><\<close> and \<^verbatim>\<open><=\<close>: false whenever an operand is a NaN.\<close>

fun float_lt :: "pyfloat \<Rightarrow> pyfloat \<Rightarrow> bool" where
  "float_lt (Fin a) (Fin b) = (a < b)"
| "float_lt (Fin a) (Infinity t) = (\<not> t)"
| "float_lt (Infinity s) (Fin b) = s"
| "float_lt (Infinity s) (Infinity t) = (s \<and> \<not> t)"
| "float_lt NaN b = False"
| "float_lt a NaN = False"

fun float_le :: "pyfloat \<Rightarrow> pyfloat \<Rightarrow> bool" where
  "float_le (Fin a) (Fin b) = (a \<le> b)"
| "float_le (Fin a) (Infinity t) = (\<not> t)"
| "float_le (Infinity s) (Fin b) = s"
| "float_le (Infinity s) (Infinity t) = (s \<or> \<not> t)"
| "float_le NaN b = False"
| "float_le a NaN = False"

text \<open>
  \<^verbatim>\<open>float.is_integer\<close>, and \<^verbatim>\<open>int\<close> of a float, which truncates towards zero and
  raises on an infinity and on a NaN.
\<close>

fun is_integer :: "pyfloat \<Rightarrow> bool" where
  "is_integer (Fin a) = (of_int \<lfloor>a\<rfloor> = a)"
| "is_integer (Infinity s) = False"
| "is_integer NaN = False"

fun py_int :: "pyfloat \<Rightarrow> error + int" where
  "py_int (Fin a) = Inr (if 0 \<le> a then \<lfloor>a\<rfloor> else \<lceil>a\<rceil>)"
| "py_int (Infinity s) = Inl PyOverflowError"
| "py_int NaN = Inl PyValueError"

subsection \<open>The string argument of \<^verbatim>\<open>float\<close>\<close>

text \<open>
  \<^verbatim>\<open>str.strip\<close> (\<open>strip\<close>) removes the leading and trailing whitespace: among the code
  points below 256, the characters 9 to 13, 28 to 32, 133 and 160.

  \<^verbatim>\<open>float(s)\<close> for a string \<open>s\<close> removes the leading and trailing characters 9 to 13,
  32, 133 and 160 (\<open>float_strip\<close>) and reads the rest by the grammar of the Python
  language reference: an optional sign, then \<^verbatim>\<open>inf\<close>, \<^verbatim>\<open>infinity\<close> or
  \<^verbatim>\<open>nan\<close> in any case, or a decimal number (digits, in which single underscores may
  separate digits, with an optional point and an optional exponent). The result is the
  float nearest to the decimal value: an infinity when that overflows. Among the code
  points below 256 the decimal digits are the ASCII ones.
\<close>

definition is_space :: "char \<Rightarrow> bool" where
  "is_space c =
     (let n = (of_char c :: nat)
      in (9 \<le> n \<and> n \<le> 13) \<or> (28 \<le> n \<and> n \<le> 32) \<or> n = 133 \<or> n = 160)"

definition strip :: "string \<Rightarrow> string" where
  "strip s = rev (dropWhile is_space (rev (dropWhile is_space s)))"

definition is_float_space :: "char \<Rightarrow> bool" where
  "is_float_space c =
     (let n = (of_char c :: nat) in (9 \<le> n \<and> n \<le> 13) \<or> n = 32 \<or> n = 133 \<or> n = 160)"

definition float_strip :: "string \<Rightarrow> string" where
  "float_strip s = rev (dropWhile is_float_space (rev (dropWhile is_float_space s)))"

definition is_digit :: "char \<Rightarrow> bool" where
  "is_digit c = (let n = (of_char c :: nat) in 48 \<le> n \<and> n \<le> 57)"

definition digit_val :: "char \<Rightarrow> nat" where
  "digit_val c = of_char c - 48"

definition lower_code :: "char \<Rightarrow> nat" where
  "lower_code c = (let n = (of_char c :: nat) in if 65 \<le> n \<and> n \<le> 90 then n + 32 else n)"

definition same_word :: "string \<Rightarrow> string \<Rightarrow> bool" where
  "same_word r w = (map lower_code r = map of_char w)"

text \<open>
  \<open>digits_rest acc cnt s\<close> reads the rest of a run of digits, of which \<open>cnt\<close> digits of
  value \<open>acc\<close> have been read; it returns the value, the number of digits and the unread
  rest. An underscore is read only between two digits.
\<close>

fun digits_rest :: "nat \<Rightarrow> nat \<Rightarrow> string \<Rightarrow> nat \<times> nat \<times> string" where
  "digits_rest acc cnt [] = (acc, cnt, [])"
| "digits_rest acc cnt [c] =
     (if is_digit c then (10 * acc + digit_val c, Suc cnt, []) else (acc, cnt, [c]))"
| "digits_rest acc cnt (c # d # ds) =
     (if is_digit c then digits_rest (10 * acc + digit_val c) (Suc cnt) (d # ds)
      else if c = CHR ''_'' \<and> is_digit d then digits_rest (10 * acc + digit_val d) (Suc cnt) ds
      else (acc, cnt, c # d # ds))"

fun digitpart :: "string \<Rightarrow> (nat \<times> nat \<times> string) option" where
  "digitpart [] = None"
| "digitpart (c # cs) = (if is_digit c then Some (digits_rest (digit_val c) 1 cs) else None)"

fun parse_sign :: "string \<Rightarrow> bool \<times> string" where
  "parse_sign [] = (False, [])"
| "parse_sign (c # cs) =
     (if c = CHR ''-'' then (True, cs) else if c = CHR ''+'' then (False, cs) else (False, c # cs))"

text \<open>
  The mantissa \<^verbatim>\<open>[digitpart] "." digitpart | digitpart ["."]\<close>: its digits read as
  one natural number, the number of digits after the point, and the unread rest.
\<close>

definition parse_mantissa :: "string \<Rightarrow> (nat \<times> nat \<times> string) option" where
  "parse_mantissa s =
     (case digitpart s of
        Some (ip, n, rest) \<Rightarrow>
          (case rest of
             [] \<Rightarrow> Some (ip, 0, [])
           | c # rest' \<Rightarrow>
               if c = CHR ''.'' then
                 (case digitpart rest' of
                    Some (fp, k, rest'') \<Rightarrow> Some (ip * 10 ^ k + fp, k, rest'')
                  | None \<Rightarrow> Some (ip, 0, rest'))
               else Some (ip, 0, rest))
      | None \<Rightarrow>
          (case s of
             [] \<Rightarrow> None
           | c # rest' \<Rightarrow> if c = CHR ''.'' then digitpart rest' else None))"

text \<open>The exponent \<^verbatim>\<open>("e" | "E") [sign] digitpart\<close>, which must end the string.\<close>

definition parse_exponent :: "string \<Rightarrow> int option" where
  "parse_exponent s =
     (case s of
        [] \<Rightarrow> Some 0
      | c # r \<Rightarrow>
          if c = CHR ''e'' \<or> c = CHR ''E'' then
            (case parse_sign r of
               (neg, r') \<Rightarrow>
                 (case digitpart r' of
                    Some (n, k, rest) \<Rightarrow>
                      if rest = [] then Some (if neg then - int n else int n) else None
                  | None \<Rightarrow> None))
          else None)"

definition decimal :: "nat \<Rightarrow> int \<Rightarrow> real" where
  "decimal m e = (if 0 \<le> e then real m * 10 ^ nat e else real m / 10 ^ nat (- e))"

definition float_of_str :: "string \<Rightarrow> error + pyfloat" where
  "float_of_str s =
     (case parse_sign (float_strip s) of
        (neg, r) \<Rightarrow>
          if same_word r ''inf'' \<or> same_word r ''infinity'' then Inr (Infinity neg)
          else if same_word r ''nan'' then Inr NaN
          else
            (case parse_mantissa r of
               None \<Rightarrow> Inl PyValueError
             | Some (m, k, r') \<Rightarrow>
                 (case parse_exponent r' of
                    None \<Rightarrow> Inl PyValueError
                  | Some e \<Rightarrow>
                      Inr (binary64 ((if neg then - 1 else 1) * decimal m (e - int k))))))"

section \<open>The input normaliser\<close>

text \<open>
  \<^verbatim>\<open>_as_number\<close> (lines 14-20). \<^verbatim>\<open>isinstance(x, (int, float))\<close> holds of a
  \<^verbatim>\<open>bool\<close> too, which is a subclass of \<^verbatim>\<open>int\<close>. \<^verbatim>\<open>float\<close> of an integer is the
  nearest float, and raises \<^verbatim>\<open>OverflowError\<close> when that is no finite float.
\<close>

definition float_of_int :: "int \<Rightarrow> error + pyfloat" where
  "float_of_int n =
     (case binary64 (of_int n) of
        Fin y \<Rightarrow> Inr (Fin y)
      | Infinity s \<Rightarrow> Inl PyOverflowError
      | NaN \<Rightarrow> Inl PyOverflowError)"

fun as_number :: "pyval \<Rightarrow> error + pyfloat" where
  "as_number (PBool b) = Inr (Fin (if b then 1 else 0))"
| "as_number (PInt n) = float_of_int n"
| "as_number (PFloat r) = Inr (Fin r)"
| "as_number (PStr s) = float_of_str (strip s)"
| "as_number PNone = Inl (InvalidNumber PNone)"

text \<open>\<^verbatim>\<open>_as_int\<close> (lines 22-27).\<close>

definition as_int :: "pyval \<Rightarrow> error + int" where
  "as_int x =
     (case as_number x of
        Inl e \<Rightarrow> Inl e
      | Inr val \<Rightarrow> if \<not> is_integer val then Inl NotAnInteger else py_int val)"

text \<open>
  \<^verbatim>\<open>_as_list\<close> (lines 29-33). The list comprehension converts the elements from left
  to right and stops at the first that raises.
\<close>

fun as_numbers :: "pyval list \<Rightarrow> error + pyfloat list" where
  "as_numbers [] = Inr []"
| "as_numbers (x # xs) =
     (case as_number x of
        Inl e \<Rightarrow> Inl e
      | Inr v \<Rightarrow> (case as_numbers xs of Inl e \<Rightarrow> Inl e | Inr vs \<Rightarrow> Inr (v # vs)))"

definition as_list :: "pyval list \<Rightarrow> error + pyfloat list" where
  "as_list data = (if data = [] then Inl EmptyInput else as_numbers data)"

section \<open>The runtime\<close>

text \<open>
  What the tools take from the interpreter and its C library and what the source does
  not fix is a parameter of the model:
  \<^item> the built-in \<^verbatim>\<open>sum\<close> over floats adds from left to right up to CPython 3.11
    (\<open>Plain_sum\<close>) and carries Neumaier's compensation term from CPython 3.12 on
    (\<open>Compensated_sum\<close>);
  \<^item> the C type \<^verbatim>\<open>long\<close> has 32 or 64 bits; \<^verbatim>\<open>math.factorial\<close> raises
    \<^verbatim>\<open>OverflowError\<close> beyond its largest value;
  \<^item> the routines \<^verbatim>\<open>pow\<close>, \<^verbatim>\<open>sin\<close>, \<^verbatim>\<open>cos\<close> and \<^verbatim>\<open>tan\<close> of the C library
    are not correctly rounded by the standard: their values at finite floats are the
    fields \<open>libm_pow\<close> (a float, an infinity on overflow, a NaN outside the domain),
    \<open>libm_sin\<close>, \<open>libm_cos\<close> and \<open>libm_tan\<close> (finite floats);
  \<^item> \<open>pow_nonfinite\<close> is \<^verbatim>\<open>math.pow\<close> when an argument is an infinity or a NaN;
  \<^item> \<open>vector_norm\<close> is the Euclidean norm that \<^verbatim>\<open>math.hypot\<close> and \<^verbatim>\<open>math.dist\<close>
    compute for two or more finite coordinates that are not all zero;
  \<^item> \<open>randbelow\<close> is the draw of the random generator, in its current state, below a
    bound.
\<close>

datatype sum_kind = Plain_sum | Compensated_sum

datatype long_kind = Long_32 | Long_64

fun long_max :: "long_kind \<Rightarrow> int" where
  "long_max Long_32 = 2 ^ 31 - 1"
| "long_max Long_64 = 2 ^ 63 - 1"

record runtime =
  sum_kind :: sum_kind
  long_kind :: long_kind
  libm_pow :: "real \<Rightarrow> real \<Rightarrow> pyfloat"
  pow_nonfinite :: "pyfloat \<Rightarrow> pyfloat \<Rightarrow> error + pyfloat"
  libm_sin :: "real \<Rightarrow> real"
  libm_cos :: "real \<Rightarrow> real"
  libm_tan :: "real \<Rightarrow> real"
  vector_norm :: "real list \<Rightarrow> pyfloat"
  randbelow :: "nat \<Rightarrow> nat"

text \<open>
  The built-in \<^verbatim>\<open>sum\<close> of a list of floats. It starts from the integer 0, to which
  the first element is added; from CPython 3.12 on the remaining elements go through
  the loop \<open>neumaier f c\<close>, where \<open>f\<close> is the running sum and \<open>c\<close> the compensation, which
  is added at the end when it is finite and not zero.
\<close>

fun is_finite :: "pyfloat \<Rightarrow> bool" where
  "is_finite (Fin a) = True"
| "is_finite (Infinity s) = False"
| "is_finite NaN = False"

fun neumaier :: "pyfloat \<Rightarrow> pyfloat \<Rightarrow> pyfloat list \<Rightarrow> pyfloat" where
  "neumaier f c [] = (if c \<noteq> Fin 0 \<and> is_finite c then fadd f c else f)"
| "neumaier f c (x # xs) =
     (let t = fadd f x
      in neumaier t
           (if float_le (fabs x) (fabs f) then fadd c (fadd (fsub f t) x)
            else fadd c (fadd (fsub x t) f))
           xs)"

fun py_sum :: "sum_kind \<Rightarrow> pyfloat list \<Rightarrow> pyfloat" where
  "py_sum Plain_sum xs = foldl fadd (Fin 0) xs"
| "py_sum Compensated_sum [] = Fin 0"
| "py_sum Compensated_sum (x # xs) = neumaier (fadd (Fin 0) x) (Fin 0) xs"

section \<open>Arithmetic\<close>

text \<open>\<^verbatim>\<open>add\<close> (lines 36-39).\<close>

definition add :: "runtime \<Rightarrow> pyval list \<Rightarrow> error + pyfloat" where
  "add R numbers =
     (case as_list numbers of Inl e \<Rightarrow> Inl e | Inr nums \<Rightarrow> Inr (py_sum (sum_kind R) nums))"

text \<open>\<^verbatim>\<open>multiply\<close> (lines 41-47): the loop multiplies into \<open>result\<close>, which starts at 1.0.\<close>

definition multiply :: "pyval list \<Rightarrow> error + pyfloat" where
  "multiply numbers =
     (case as_list numbers of Inl e \<Rightarrow> Inl e | Inr nums \<Rightarrow> Inr (foldl fmul (Fin 1) nums))"

text \<open>\<^verbatim>\<open>subtract\<close> (lines 49-56).\<close>

definition subtract :: "pyval list \<Rightarrow> error + pyfloat" where
  "subtract numbers =
     (case as_list numbers of
        Inl e \<Rightarrow> Inl e
      | Inr nums \<Rightarrow>
          (case nums of [] \<Rightarrow> Inl PyIndexError | x # rest \<Rightarrow> Inr (foldl fsub x rest)))"

text \<open>
  \<^verbatim>\<open>divide\<close> (lines 58-67), here \<open>divide_tool\<close>: the constants \<open>divide\<close>,
  \<open>modulo\<close>, \<open>power\<close>, \<open>log\<close>, \<open>sqrt\<close>, \<open>floor\<close>, \<open>gcd\<close>, \<open>lcm\<close>, \<open>sin\<close>, \<open>cos\<close> and
  \<open>tan\<close> of the library keep their names, and the tools of these names carry the suffix \<open>_tool\<close>. The
  loop over \<^verbatim>\<open>nums[1:]\<close> raises at the first zero divisor it reaches.
\<close>

fun divide_loop :: "pyfloat \<Rightarrow> pyfloat list \<Rightarrow> error + pyfloat" where
  "divide_loop result [] = Inr result"
| "divide_loop result (n # ns) =
     (if n = Fin 0 then Inl DivisionByZero
      else (case py_truediv result n of Inl e \<Rightarrow> Inl e | Inr q \<Rightarrow> divide_loop q ns))"

definition divide_tool :: "pyval list \<Rightarrow> error + pyfloat" where
  "divide_tool numbers =
     (case as_list numbers of
        Inl e \<Rightarrow> Inl e
      | Inr nums \<Rightarrow>
          (case nums of [] \<Rightarrow> Inl PyIndexError | x # rest \<Rightarrow> divide_loop x rest))"

text \<open>\<^verbatim>\<open>divide_multiple\<close> (lines 70-79), a second function with its own loop.\<close>

fun divide_multiple_loop :: "pyfloat \<Rightarrow> pyfloat list \<Rightarrow> error + pyfloat" where
  "divide_multiple_loop result [] = Inr result"
| "divide_multiple_loop result (n # ns) =
     (if n = Fin 0 then Inl DivisionByZero
      else (case py_truediv result n of Inl e \<Rightarrow> Inl e | Inr q \<Rightarrow> divide_multiple_loop q ns))"

definition divide_multiple :: "pyval list \<Rightarrow> error + pyfloat" where
  "divide_multiple numbers =
     (case as_list numbers of
        Inl e \<Rightarrow> Inl e
      | Inr nums \<Rightarrow>
          (case nums of [] \<Rightarrow> Inl PyIndexError | x # rest \<Rightarrow> divide_multiple_loop x rest))"

text \<open>
  \<^verbatim>\<open>modulo\<close> (lines 81-84). The operands are converted from left to right. Python's
  \<^verbatim>\<open>%\<close> on floats raises \<^verbatim>\<open>ZeroDivisionError\<close> for a zero divisor and otherwise
  returns the remainder with the sign of the divisor: the remainder of the C library,
  to which the divisor is added when their signs differ.
\<close>

fun float_rem :: "pyfloat \<Rightarrow> pyfloat \<Rightarrow> pyfloat" where
  "float_rem (Fin x) (Fin y) = binary64 (x - y * of_int \<lfloor>x / y\<rfloor>)"
| "float_rem (Fin x) (Infinity t) = (if x = 0 \<or> (x < 0) = t then Fin x else Infinity t)"
| "float_rem (Infinity s) (Fin y) = NaN"
| "float_rem (Infinity s) (Infinity t) = NaN"
| "float_rem NaN b = NaN"
| "float_rem a NaN = NaN"

definition py_mod :: "pyfloat \<Rightarrow> pyfloat \<Rightarrow> error + pyfloat" where
  "py_mod a b = (if b = Fin 0 then Inl PyZeroDivisionError else Inr (float_rem a b))"

definition modulo_tool :: "pyval \<Rightarrow> pyval \<Rightarrow> error + pyfloat" where
  "modulo_tool a b =
     (case as_number a of
        Inl e \<Rightarrow> Inl e
      | Inr va \<Rightarrow> (case as_number b of Inl e \<Rightarrow> Inl e | Inr vb \<Rightarrow> py_mod va vb))"

text \<open>
  \<^verbatim>\<open>power\<close> (lines 86-89). On two finite floats \<^verbatim>\<open>math.pow\<close> calls the C
  library, whose \<^verbatim>\<open>pow\<close> returns exactly 1 for a zero exponent and for the base 1, and
  zero for a zero base with a positive exponent (C99, Annex F; the first two are in the
  documentation of \<^verbatim>\<open>math.pow\<close>). An infinite result is an \<^verbatim>\<open>OverflowError\<close>, or a
  math domain error when the base is zero; a NaN result is a math domain error.
\<close>

definition checked_pow :: "runtime \<Rightarrow> real \<Rightarrow> real \<Rightarrow> error + pyfloat" where
  "checked_pow R a b =
     (case libm_pow R a b of
        Fin r \<Rightarrow> Inr (Fin r)
      | Infinity s \<Rightarrow> Inl PyOverflowError
      | NaN \<Rightarrow> Inl PyValueError)"

fun math_pow :: "runtime \<Rightarrow> pyfloat \<Rightarrow> pyfloat \<Rightarrow> error + pyfloat" where
  "math_pow R (Fin a) (Fin b) =
     (if b = 0 \<or> a = 1 then Inr (Fin 1)
      else if a = 0 then (if 0 < b then Inr (Fin 0) else Inl PyValueError)
      else checked_pow R a b)"
| "math_pow R x y = pow_nonfinite R x y"

definition power_tool :: "runtime \<Rightarrow> pyval \<Rightarrow> pyval \<Rightarrow> error + pyfloat" where
  "power_tool R base exponent =
     (case as_number base of
        Inl e \<Rightarrow> Inl e
      | Inr vb \<Rightarrow>
          (case as_number exponent of Inl e \<Rightarrow> Inl e | Inr ve \<Rightarrow> math_pow R vb ve))"

section \<open>Advanced math and number theory\<close>

text \<open>
  \<^verbatim>\<open>sqrt\<close> (lines 93-99). \<^verbatim>\<open>math.sqrt\<close> is correctly rounded and raises a math
  domain error below zero.
\<close>

fun m_sqrt :: "pyfloat \<Rightarrow> error + pyfloat" where
  "m_sqrt (Fin a) = (if a < 0 then Inl PyValueError else Inr (binary64 (sqrt a)))"
| "m_sqrt (Infinity s) = (if s then Inl PyValueError else Inr PosInf)"
| "m_sqrt NaN = Inr NaN"

definition sqrt_tool :: "pyval \<Rightarrow> error + pyfloat" where
  "sqrt_tool x =
     (case as_number x of
        Inl e \<Rightarrow> Inl e
      | Inr val \<Rightarrow> if float_lt val (Fin 0) then Inl NegativeInput else m_sqrt val)"

text \<open>
  \<^verbatim>\<open>log\<close> (lines 101-111). The parameter \<^verbatim>\<open>base\<close> has the default value
  \<^verbatim>\<open>2.718281828\<close>, a float literal; \<open>None\<close> is the call that gives no base.
  \<^verbatim>\<open>math.log(val, b)\<close> takes the logarithm of \<open>val\<close>, then that of \<open>b\<close> (\<open>m_log\<close>: a
  math domain error at zero and below, taken as correctly rounded above), and divides
  the first by the second with \<^verbatim>\<open>/\<close>, which raises \<^verbatim>\<open>ZeroDivisionError\<close> for the
  base 1.
\<close>

definition log_default_base :: pyval where
  "log_default_base = PFloat (round53 (2718281828 / 10 ^ 9))"

fun m_log :: "pyfloat \<Rightarrow> error + pyfloat" where
  "m_log (Fin a) = (if a \<le> 0 then Inl PyValueError else Inr (binary64 (ln a)))"
| "m_log (Infinity s) = (if s then Inl PyValueError else Inr PosInf)"
| "m_log NaN = Inr NaN"

definition math_log :: "pyfloat \<Rightarrow> pyfloat \<Rightarrow> error + pyfloat" where
  "math_log val b =
     (case m_log val of
        Inl e \<Rightarrow> Inl e
      | Inr num \<Rightarrow> (case m_log b of Inl e \<Rightarrow> Inl e | Inr den \<Rightarrow> py_truediv num den))"

definition log_tool :: "pyval \<Rightarrow> pyval option \<Rightarrow> error + pyfloat" where
  "log_tool x base =
     (case as_number x of
        Inl e \<Rightarrow> Inl e
      | Inr val \<Rightarrow>
          (case as_number (case base of None \<Rightarrow> log_default_base | Some given \<Rightarrow> given) of
             Inl e \<Rightarrow> Inl e
           | Inr b \<Rightarrow> if float_le val (Fin 0) then Inl NonPositiveInput else math_log val b))"

text \<open>\<^verbatim>\<open>log10\<close> (lines 113-119), with \<^verbatim>\<open>math.log10\<close> taken as correctly rounded.\<close>

fun m_log10 :: "pyfloat \<Rightarrow> error + pyfloat" where
  "m_log10 (Fin a) = (if a \<le> 0 then Inl PyValueError else Inr (binary64 (log 10 a)))"
| "m_log10 (Infinity s) = (if s then Inl PyValueError else Inr PosInf)"
| "m_log10 NaN = Inr NaN"

definition log10 :: "pyval \<Rightarrow> error + pyfloat" where
  "log10 x =
     (case as_number x of
        Inl e \<Rightarrow> Inl e
      | Inr val \<Rightarrow> if float_le val (Fin 0) then Inl NonPositiveInput else m_log10 val)"

text \<open>
  \<^verbatim>\<open>factorial\<close>, \<^verbatim>\<open>gcd\<close> and \<^verbatim>\<open>lcm\<close> (lines 123-139), on Python's unbounded
  integers. \<^verbatim>\<open>math.factorial\<close> raises \<^verbatim>\<open>OverflowError\<close> beyond the largest C
  \<^verbatim>\<open>long\<close>.
\<close>

definition math_factorial :: "runtime \<Rightarrow> int \<Rightarrow> error + int" where
  "math_factorial R n =
     (if n < 0 then Inl PyValueError
      else if long_max (long_kind R) < n then Inl PyOverflowError
      else Inr (fact (nat n)))"

definition factorial :: "runtime \<Rightarrow> pyval \<Rightarrow> error + int" where
  "factorial R x =
     (case as_int x of
        Inl e \<Rightarrow> Inl e
      | Inr n \<Rightarrow> if n < 0 then Inl NegativeInput else math_factorial R n)"

definition gcd_tool :: "pyval \<Rightarrow> pyval \<Rightarrow> error + int" where
  "gcd_tool a b =
     (case as_int a of
        Inl e \<Rightarrow> Inl e
      | Inr m \<Rightarrow> (case as_int b of Inl e \<Rightarrow> Inl e | Inr n \<Rightarrow> Inr (gcd m n)))"

definition lcm_tool :: "pyval \<Rightarrow> pyval \<Rightarrow> error + int" where
  "lcm_tool a b =
     (case as_int a of
        Inl e \<Rightarrow> Inl e
      | Inr m \<Rightarrow> (case as_int b of Inl e \<Rightarrow> Inl e | Inr n \<Rightarrow> Inr (lcm m n)))"

section \<open>Trigonometry\<close>

text \<open>
  \<^verbatim>\<open>sin\<close>, \<^verbatim>\<open>cos\<close>, \<^verbatim>\<open>tan\<close> (lines 143-156) and the conversions of lines
  158-166. The three functions of \<^verbatim>\<open>math\<close> return a finite float at a finite float,
  raise a math domain error at an infinity and return a NaN at a NaN. \<^verbatim>\<open>math.radians\<close> multiplies by the float \<^verbatim>\<open>math.pi / 180.0\<close> and
  \<^verbatim>\<open>math.degrees\<close> by the float \<^verbatim>\<open>180.0 / math.pi\<close>; \<^verbatim>\<open>math.pi\<close> is the float
  nearest to \<open>\<pi>\<close>.
\<close>

fun m_sin :: "runtime \<Rightarrow> pyfloat \<Rightarrow> error + pyfloat" where
  "m_sin R (Fin a) = Inr (Fin (libm_sin R a))"
| "m_sin R (Infinity s) = Inl PyValueError"
| "m_sin R NaN = Inr NaN"

fun m_cos :: "runtime \<Rightarrow> pyfloat \<Rightarrow> error + pyfloat" where
  "m_cos R (Fin a) = Inr (Fin (libm_cos R a))"
| "m_cos R (Infinity s) = Inl PyValueError"
| "m_cos R NaN = Inr NaN"

fun m_tan :: "runtime \<Rightarrow> pyfloat \<Rightarrow> error + pyfloat" where
  "m_tan R (Fin a) = Inr (Fin (libm_tan R a))"
| "m_tan R (Infinity s) = Inl PyValueError"
| "m_tan R NaN = Inr NaN"

definition sin_tool :: "runtime \<Rightarrow> pyval \<Rightarrow> error + pyfloat" where
  "sin_tool R x = (case as_number x of Inl e \<Rightarrow> Inl e | Inr val \<Rightarrow> m_sin R val)"

definition cos_tool :: "runtime \<Rightarrow> pyval \<Rightarrow> error + pyfloat" where
  "cos_tool R x = (case as_number x of Inl e \<Rightarrow> Inl e | Inr val \<Rightarrow> m_cos R val)"

definition tan_tool :: "runtime \<Rightarrow> pyval \<Rightarrow> error + pyfloat" where
  "tan_tool R x = (case as_number x of Inl e \<Rightarrow> Inl e | Inr val \<Rightarrow> m_tan R val)"

definition math_pi :: pyfloat where
  "math_pi = binary64 pi"

definition degrees_to_radians :: "pyval \<Rightarrow> error + pyfloat" where
  "degrees_to_radians degrees =
     (case as_number degrees of
        Inl e \<Rightarrow> Inl e
      | Inr val \<Rightarrow> Inr (fmul val (fdiv math_pi (Fin 180))))"

definition radians_to_degrees :: "pyval \<Rightarrow> error + pyfloat" where
  "radians_to_degrees radians =
     (case as_number radians of
        Inl e \<Rightarrow> Inl e
      | Inr val \<Rightarrow> Inr (fmul val (fdiv (Fin 180) math_pi)))"

section \<open>Geometry\<close>

text \<open>
  \<^verbatim>\<open>hypotenuse\<close>, \<^verbatim>\<open>distance_2d\<close> and \<^verbatim>\<open>circle_area\<close> (lines 199-215), and
  \<^verbatim>\<open>distance_3d\<close> (lines 258-261). The arguments are converted from left to right.
  \<^verbatim>\<open>math.hypot\<close> takes the absolute values of its arguments and \<^verbatim>\<open>math.dist\<close>
  those of the differences of the coordinates, and both return their norm: an infinity
  if one of them is infinite, else a NaN if one is a NaN, else their maximum if that is
  zero or there is one coordinate, else the norm the runtime computes.
\<close>

fun fin_value :: "pyfloat \<Rightarrow> real" where
  "fin_value (Fin a) = a"
| "fin_value (Infinity s) = 0"
| "fin_value NaN = 0"

definition py_vector_norm :: "runtime \<Rightarrow> pyfloat list \<Rightarrow> pyfloat" where
  "py_vector_norm R vs =
     (if PosInf \<in> set vs then PosInf
      else if NaN \<in> set vs then NaN
      else (let xs = map fin_value vs; m = foldl max 0 xs
            in if m = 0 \<or> length xs \<le> 1 then Fin m else vector_norm R xs))"

definition math_dist :: "runtime \<Rightarrow> pyfloat list \<Rightarrow> pyfloat list \<Rightarrow> pyfloat" where
  "math_dist R p q = py_vector_norm R (map (\<lambda>(x, y). fabs (fsub x y)) (zip p q))"

definition hypotenuse :: "runtime \<Rightarrow> pyval \<Rightarrow> pyval \<Rightarrow> error + pyfloat" where
  "hypotenuse R a b =
     (case as_number a of
        Inl e \<Rightarrow> Inl e
      | Inr va \<Rightarrow>
          (case as_number b of
             Inl e \<Rightarrow> Inl e
           | Inr vb \<Rightarrow> Inr (py_vector_norm R [fabs va, fabs vb])))"

definition distance_2d :: "runtime \<Rightarrow> pyval \<Rightarrow> pyval \<Rightarrow> pyval \<Rightarrow> pyval \<Rightarrow> error + pyfloat" where
  "distance_2d R x1 y1 x2 y2 =
     (case as_numbers [x1, y1, x2, y2] of
        Inl e \<Rightarrow> Inl e
      | Inr vs \<Rightarrow> Inr (math_dist R (take 2 vs) (drop 2 vs)))"

definition distance_3d ::
  "runtime \<Rightarrow> pyval \<Rightarrow> pyval \<Rightarrow> pyval \<Rightarrow> pyval \<Rightarrow> pyval \<Rightarrow> pyval \<Rightarrow> error + pyfloat" where
  "distance_3d R x1 y1 z1 x2 y2 z2 =
     (case as_numbers [x1, y1, z1, x2, y2, z2] of
        Inl e \<Rightarrow> Inl e
      | Inr vs \<Rightarrow> Inr (math_dist R (take 3 vs) (drop 3 vs)))"

text \<open>
  \<^verbatim>\<open>r ** 2\<close> on a float \<open>r\<close> that is not negative: the interpreter returns a NaN, an
  infinity, zero and one as they are and calls \<^verbatim>\<open>pow\<close> of the C library on the other
  floats, with \<^verbatim>\<open>OverflowError\<close> when the square is too large.
\<close>

fun float_square :: "runtime \<Rightarrow> pyfloat \<Rightarrow> error + pyfloat" where
  "float_square R (Fin a) =
     (if a = 0 then Inr (Fin 0) else if \<bar>a\<bar> = 1 then Inr (Fin 1) else checked_pow R \<bar>a\<bar> 2)"
| "float_square R (Infinity s) = Inr PosInf"
| "float_square R NaN = Inr NaN"

definition circle_area :: "runtime \<Rightarrow> pyval \<Rightarrow> error + pyfloat" where
  "circle_area R radius =
     (case as_number radius of
        Inl e \<Rightarrow> Inl e
      | Inr r \<Rightarrow>
          if float_lt r (Fin 0) then Inl NegativeInput
          else (case float_square R r of
                  Inl e \<Rightarrow> Inl e
                | Inr sq \<Rightarrow> Inr (fmul math_pi sq)))"

section \<open>Utilities\<close>

text \<open>
  \<^verbatim>\<open>abs_val\<close>, \<^verbatim>\<open>floor\<close>, \<^verbatim>\<open>ceil\<close>, \<^verbatim>\<open>round_num\<close>, \<^verbatim>\<open>random_int\<close>,
  \<^verbatim>\<open>get_pi\<close>, \<^verbatim>\<open>get_e\<close> (lines 219-252) and \<^verbatim>\<open>absolute_difference\<close> (lines
  272-275). \<^verbatim>\<open>math.floor\<close> and \<^verbatim>\<open>math.ceil\<close> raise on an infinity and on a NaN. The
  parameter \<^verbatim>\<open>digits\<close> of \<^verbatim>\<open>round_num\<close> has the default value 0. \<^verbatim>\<open>round\<close> of a
  finite float to \<open>n\<close> digits is the float nearest to its decimal rounding (half to even
  on the exact value), the float itself beyond 323 digits and zero below \<open>-308\<close>, with
  \<^verbatim>\<open>OverflowError\<close> when the rounded value is no finite float. \<^verbatim>\<open>random.randint(a, b)\<close>
  raises \<^verbatim>\<open>ValueError\<close> on an empty range and otherwise adds to \<open>a\<close> a draw below
  \<open>b - a + 1\<close>.
\<close>

definition abs_val :: "pyval \<Rightarrow> error + pyfloat" where
  "abs_val x = (case as_number x of Inl e \<Rightarrow> Inl e | Inr val \<Rightarrow> Inr (fabs val))"

fun m_floor :: "pyfloat \<Rightarrow> error + int" where
  "m_floor (Fin a) = Inr \<lfloor>a\<rfloor>"
| "m_floor (Infinity s) = Inl PyOverflowError"
| "m_floor NaN = Inl PyValueError"

fun m_ceil :: "pyfloat \<Rightarrow> error + int" where
  "m_ceil (Fin a) = Inr \<lceil>a\<rceil>"
| "m_ceil (Infinity s) = Inl PyOverflowError"
| "m_ceil NaN = Inl PyValueError"

definition floor_tool :: "pyval \<Rightarrow> error + int" where
  "floor_tool x = (case as_number x of Inl e \<Rightarrow> Inl e | Inr val \<Rightarrow> m_floor val)"

definition ceil :: "pyval \<Rightarrow> error + int" where
  "ceil x = (case as_number x of Inl e \<Rightarrow> Inl e | Inr val \<Rightarrow> m_ceil val)"

definition decimal_round :: "real \<Rightarrow> int \<Rightarrow> real" where
  "decimal_round a n =
     (if 0 \<le> n then of_int (rne (a * 10 ^ nat n)) / 10 ^ nat n
      else of_int (rne (a / 10 ^ nat (- n))) * 10 ^ nat (- n))"

fun float_round :: "pyfloat \<Rightarrow> int \<Rightarrow> error + pyfloat" where
  "float_round (Fin a) n =
     (if 323 < n then Inr (Fin a)
      else if n < - 308 then Inr (Fin 0)
      else (case binary64 (decimal_round a n) of
              Fin y \<Rightarrow> Inr (Fin y)
            | Infinity s \<Rightarrow> Inl PyOverflowError
            | NaN \<Rightarrow> Inl PyOverflowError))"
| "float_round (Infinity s) n = Inr (Infinity s)"
| "float_round NaN n = Inr NaN"

definition round_num :: "pyval \<Rightarrow> pyval option \<Rightarrow> error + pyfloat" where
  "round_num x digits =
     (case as_number x of
        Inl e \<Rightarrow> Inl e
      | Inr val \<Rightarrow>
          (case as_int (case digits of None \<Rightarrow> PInt 0 | Some given \<Rightarrow> given) of
             Inl e \<Rightarrow> Inl e
           | Inr n \<Rightarrow> float_round val n))"

definition randint :: "runtime \<Rightarrow> int \<Rightarrow> int \<Rightarrow> error + int" where
  "randint R a b =
     (if b < a then Inl PyValueError
      else Inr (a + int (randbelow R (nat (b - a + 1)) mod nat (b - a + 1))))"

definition random_int :: "runtime \<Rightarrow> pyval \<Rightarrow> pyval \<Rightarrow> error + int" where
  "random_int R min_val max_val =
     (case as_int min_val of
        Inl e \<Rightarrow> Inl e
      | Inr m \<Rightarrow> (case as_int max_val of Inl e \<Rightarrow> Inl e | Inr n \<Rightarrow> randint R m n))"

definition get_pi :: pyfloat where
  "get_pi = math_pi"

definition get_e :: pyfloat where
  "get_e = binary64 (exp 1)"

definition absolute_difference :: "pyval \<Rightarrow> pyval \<Rightarrow> error + pyfloat" where
  "absolute_difference a b =
     (case as_number a of
        Inl e \<Rightarrow> Inl e
      | Inr va \<Rightarrow> (case as_number b of Inl e \<Rightarrow> Inl e | Inr vb \<Rightarrow> Inr (fabs (fsub va vb))))"

section \<open>Statistics\<close>

text \<open>
  The four tools of lines 170-196 check the length of \<^verbatim>\<open>data\<close> and pass the list
  as it is to the module \<^verbatim>\<open>statistics\<close> of the standard library; they do not call
  \<^verbatim>\<open>_as_list\<close>.

  The library routines are modelled from the library's documentation and source
  (Python 3.11). \<^verbatim>\<open>mean\<close>, \<^verbatim>\<open>variance\<close> and \<^verbatim>\<open>stdev\<close> take the exact rational
  value of every element (\<^verbatim>\<open>as_integer_ratio\<close>), which a string or \<^verbatim>\<open>None\<close> does
  not have (\<^verbatim>\<open>TypeError\<close>), raise \<^verbatim>\<open>StatisticsError\<close> on too few data,
  compute with exact fractions and convert the result once: to an integer when all the
  data are integers and the result is one, to the nearest float otherwise, with
  \<^verbatim>\<open>OverflowError\<close> when that is no finite float. The model returns the numeric value
  of the result.
\<close>

fun exact_value :: "pyval \<Rightarrow> real option" where
  "exact_value (PBool b) = Some (if b then 1 else 0)"
| "exact_value (PInt n) = Some (of_int n)"
| "exact_value (PFloat r) = Some r"
| "exact_value (PStr s) = None"
| "exact_value PNone = None"

fun is_integral :: "pyval \<Rightarrow> bool" where
  "is_integral (PBool b) = True"
| "is_integral (PInt n) = True"
| "is_integral v = False"

definition to_float :: "real \<Rightarrow> error + real" where
  "to_float q =
     (case binary64 q of
        Fin y \<Rightarrow> Inr y
      | Infinity s \<Rightarrow> Inl PyOverflowError
      | NaN \<Rightarrow> Inl PyOverflowError)"

definition convert_result :: "pyval list \<Rightarrow> real \<Rightarrow> error + real" where
  "convert_result data q =
     (if list_all is_integral data \<and> of_int \<lfloor>q\<rfloor> = q then Inr q else to_float q)"

definition exact_mean :: "real list \<Rightarrow> real" where
  "exact_mean xs = sum_list xs / real (length xs)"

definition exact_variance :: "real list \<Rightarrow> real" where
  "exact_variance xs =
     sum_list (map (\<lambda>x. (x - exact_mean xs)\<^sup>2) xs) / (real (length xs) - 1)"

definition statistics_mean :: "pyval list \<Rightarrow> error + real" where
  "statistics_mean data =
     (case those (map exact_value data) of
        None \<Rightarrow> Inl PyTypeError
      | Some xs \<Rightarrow>
          if length xs < 1 then Inl PyStatisticsError
          else convert_result data (exact_mean xs))"

definition statistics_variance :: "pyval list \<Rightarrow> error + real" where
  "statistics_variance data =
     (case those (map exact_value data) of
        None \<Rightarrow> Inl PyTypeError
      | Some xs \<Rightarrow>
          if length xs < 2 then Inl PyStatisticsError
          else convert_result data (exact_variance xs))"

definition statistics_stdev :: "pyval list \<Rightarrow> error + real" where
  "statistics_stdev data =
     (case those (map exact_value data) of
        None \<Rightarrow> Inl PyTypeError
      | Some xs \<Rightarrow>
          if length xs < 2 then Inl PyStatisticsError
          else to_float (sqrt (exact_variance xs)))"

text \<open>
  \<^verbatim>\<open>statistics.median\<close> sorts the data with \<^verbatim>\<open>sorted\<close> and returns the middle
  element, or \<^verbatim>\<open>(data[i - 1] + data[i]) / 2\<close> for an even length. \<^verbatim>\<open><\<close> compares
  numbers by value and strings by their characters, and raises \<^verbatim>\<open>TypeError\<close> on any
  other pair; \<^verbatim>\<open>sorted\<close> is stable.
\<close>

fun str_lt :: "string \<Rightarrow> string \<Rightarrow> bool" where
  "str_lt [] [] = False"
| "str_lt [] (d # ds) = True"
| "str_lt (c # cs) [] = False"
| "str_lt (c # cs) (d # ds) =
     (if (of_char c :: nat) < of_char d then True
      else if (of_char d :: nat) < of_char c then False
      else str_lt cs ds)"

fun py_lt :: "pyval \<Rightarrow> pyval \<Rightarrow> error + bool" where
  "py_lt (PStr s) (PStr t) = Inr (str_lt s t)"
| "py_lt a b =
     (case exact_value a of
        None \<Rightarrow> Inl PyTypeError
      | Some x \<Rightarrow> (case exact_value b of None \<Rightarrow> Inl PyTypeError | Some y \<Rightarrow> Inr (x < y)))"

fun py_insort :: "pyval \<Rightarrow> pyval list \<Rightarrow> error + pyval list" where
  "py_insort x [] = Inr [x]"
| "py_insort x (y # ys) =
     (case py_lt x y of
        Inl e \<Rightarrow> Inl e
      | Inr lt \<Rightarrow>
          if lt then Inr (x # y # ys)
          else (case py_insort x ys of Inl e \<Rightarrow> Inl e | Inr zs \<Rightarrow> Inr (y # zs)))"

fun py_sort_from :: "pyval list \<Rightarrow> pyval list \<Rightarrow> error + pyval list" where
  "py_sort_from acc [] = Inr acc"
| "py_sort_from acc (x # xs) =
     (case py_insort x acc of Inl e \<Rightarrow> Inl e | Inr acc' \<Rightarrow> py_sort_from acc' xs)"

definition py_sorted :: "pyval list \<Rightarrow> error + pyval list" where
  "py_sorted xs = py_sort_from [] xs"

text \<open>
  \<^verbatim>\<open>a + b\<close> on two elements of the data, and \<^verbatim>\<open>c / 2\<close> on their sum: two strings
  are concatenated, two integers (or booleans) are added exactly, and an integer is
  converted to a float before it is added to a float. The quotient of an integer by 2 is
  the nearest float, with \<^verbatim>\<open>OverflowError\<close> when that is not finite.
\<close>

datatype pysum = Str_sum string | Int_sum int | Float_sum pyfloat

fun int_value :: "pyval \<Rightarrow> int" where
  "int_value (PBool b) = (if b then 1 else 0)"
| "int_value (PInt n) = n"
| "int_value v = 0"

fun float_operand :: "pyval \<Rightarrow> error + pyfloat" where
  "float_operand (PBool b) = Inr (Fin (if b then 1 else 0))"
| "float_operand (PInt n) = float_of_int n"
| "float_operand (PFloat r) = Inr (Fin r)"
| "float_operand v = Inl PyTypeError"

definition py_add :: "pyval \<Rightarrow> pyval \<Rightarrow> error + pysum" where
  "py_add a b =
     (case (a, b) of
        (PStr s, PStr t) \<Rightarrow> Inr (Str_sum (s @ t))
      | _ \<Rightarrow>
          if exact_value a = None \<or> exact_value b = None then Inl PyTypeError
          else if is_integral a \<and> is_integral b then Inr (Int_sum (int_value a + int_value b))
          else (case float_operand a of
                  Inl e \<Rightarrow> Inl e
                | Inr x \<Rightarrow>
                    (case float_operand b of
                       Inl e \<Rightarrow> Inl e
                     | Inr y \<Rightarrow> Inr (Float_sum (fadd x y)))))"

fun py_halve :: "pysum \<Rightarrow> error + pyfloat" where
  "py_halve (Str_sum s) = Inl PyTypeError"
| "py_halve (Int_sum n) =
     (case binary64 (of_int n / 2) of
        Fin y \<Rightarrow> Inr (Fin y)
      | Infinity s \<Rightarrow> Inl PyOverflowError
      | NaN \<Rightarrow> Inl PyOverflowError)"
| "py_halve (Float_sum f) = Inr (fdiv f (Fin 2))"

text \<open>
  The result of \<^verbatim>\<open>median\<close> is an element of the data as it is, or the float of the
  mean of the two middle elements.
\<close>

datatype pyout = Elem pyval | Float_out pyfloat

definition statistics_median :: "pyval list \<Rightarrow> error + pyout" where
  "statistics_median data =
     (case py_sorted data of
        Inl e \<Rightarrow> Inl e
      | Inr s \<Rightarrow>
          (let n = length s in
           if n = 0 then Inl PyStatisticsError
           else if n mod 2 = 1 then Inr (Elem (s ! (n div 2)))
           else (case py_add (s ! (n div 2 - 1)) (s ! (n div 2)) of
                   Inl e \<Rightarrow> Inl e
                 | Inr c \<Rightarrow>
                     (case py_halve c of Inl e \<Rightarrow> Inl e | Inr f \<Rightarrow> Inr (Float_out f)))))"

text \<open>\<^verbatim>\<open>mean\<close>, \<^verbatim>\<open>median\<close>, \<^verbatim>\<open>stdev\<close> and \<^verbatim>\<open>variance\<close> (lines 170-196).\<close>

definition mean :: "pyval list \<Rightarrow> error + real" where
  "mean data = (if data = [] then Inl EmptyInput else statistics_mean data)"

definition median :: "pyval list \<Rightarrow> error + pyout" where
  "median data = (if data = [] then Inl EmptyInput else statistics_median data)"

definition stdev :: "pyval list \<Rightarrow> error + real" where
  "stdev data = (if length data < 2 then Inl InsufficientData else statistics_stdev data)"

definition variance :: "pyval list \<Rightarrow> error + real" where
  "variance data = (if length data < 2 then Inl InsufficientData else statistics_variance data)"

section \<open>Distance\<close>

text \<open>
  \<^verbatim>\<open>manhattan_distance\<close> (lines 263-270): both lists are normalised, the first one
  first, before the lengths are compared.
\<close>

definition manhattan_distance :: "runtime \<Rightarrow> pyval list \<Rightarrow> pyval list \<Rightarrow> error + pyfloat" where
  "manhattan_distance R point1 point2 =
     (case as_list point1 of
        Inl e \<Rightarrow> Inl e
      | Inr p1 \<Rightarrow>
          (case as_list point2 of
             Inl e \<Rightarrow> Inl e
           | Inr p2 \<Rightarrow>
               if length p1 \<noteq> length p2 then Inl DimensionMismatch
               else Inr (py_sum (sum_kind R) (map (\<lambda>(a, b). fabs (fsub a b)) (zip p1 p2)))))"

section \<open>Rounding: basic facts\<close>

lemma rne_of_int: "rne (of_int k) = k"
  by (simp add: rne_def)

lemma rne_bounds: "\<bar>of_int (rne x) - x\<bar> \<le> 1 / 2"
  unfolding rne_def Let_def by (auto; linarith)

lemma expo_bounds:
  assumes "x \<noteq> 0"
  shows "2 powr of_int (expo x) \<le> \<bar>x\<bar>" and "\<bar>x\<bar> < 2 powr (of_int (expo x) + 1)"
proof -
  have pos: "0 < \<bar>x\<bar>" using assms by simp
  have "of_int (expo x) \<le> log 2 \<bar>x\<bar>" by (simp add: expo_def)
  then show "2 powr of_int (expo x) \<le> \<bar>x\<bar>"
    using pos by (simp add: le_log_iff)
  have "log 2 \<bar>x\<bar> < of_int (expo x) + 1" by (simp add: expo_def)
  then show "\<bar>x\<bar> < 2 powr (of_int (expo x) + 1)"
    using pos by (simp add: log_less_iff)
qed

lemma expo_unique:
  assumes "2 powr of_int e \<le> \<bar>x\<bar>" and "\<bar>x\<bar> < 2 powr (of_int e + 1)"
  shows "expo x = e"
proof -
  have pos: "0 < \<bar>x\<bar>" using assms(1) by (smt (verit) powr_gt_zero)
  have "of_int e \<le> log 2 \<bar>x\<bar>" using assms(1) pos by (simp add: le_log_iff)
  moreover have "log 2 \<bar>x\<bar> < of_int e + 1" using assms(2) pos by (simp add: log_less_iff)
  ultimately show ?thesis unfolding expo_def by linarith
qed

lemma round53_0: "round53 0 = 0" by (simp add: round53_def)

lemma ulp_pos: "0 < ulp x" by (simp add: ulp_def)

lemma round53_exact:
  assumes "x / ulp x = of_int k"
  shows "round53 x = x"
proof (cases "x = 0")
  case True then show ?thesis by (simp add: round53_def)
next
  case False
  have "of_int (rne (x / ulp x)) * ulp x = (x / ulp x) * ulp x"
    using assms by (simp add: rne_of_int)
  also have "\<dots> = x" using ulp_pos[of x] by simp
  finally show ?thesis using False by (simp add: round53_def)
qed

lemma expo_of_int_nonneg:
  assumes "n \<noteq> 0" shows "0 \<le> expo (of_int n)"
proof -
  have "1 \<le> \<bar>n\<bar>" using assms by simp
  then have "real_of_int 1 \<le> real_of_int \<bar>n\<bar>" by (simp only: of_int_le_iff)
  then have "1 \<le> \<bar>real_of_int n\<bar>" by simp
  then have "0 \<le> log 2 \<bar>real_of_int n\<bar>" by simp
  then show ?thesis by (simp add: expo_def)
qed

lemma round53_of_int:
  assumes "\<bar>n\<bar> \<le> 2 ^ 53"
  shows "round53 (of_int n) = of_int n"
proof (cases "n = 0")
  case True then show ?thesis by (simp add: round53_0)
next
  case False
  define x where "x = real_of_int n"
  define e where "e = expo x"
  have x0: "x \<noteq> 0" using False by (simp add: x_def)
  have e0: "0 \<le> e" unfolding e_def x_def by (rule expo_of_int_nonneg[OF False])
  have lo: "2 powr of_int e \<le> \<bar>x\<bar>" unfolding e_def by (rule expo_bounds(1)[OF x0])
  have hi: "\<bar>x\<bar> \<le> 2 ^ 53" using assms unfolding x_def
    by (metis of_int_abs of_int_le_iff of_int_numeral of_int_power)
  have e53: "e \<le> 53"
  proof (rule ccontr)
    assume "\<not> e \<le> 53"
    then have "(54::real) \<le> of_int e" by linarith
    then have "(2::real) powr 54 \<le> 2 powr of_int e" by (rule powr_mono) simp
    then show False using lo hi by simp
  qed
  show ?thesis
  proof (cases "e \<le> 52")
    case True
    define k where "k = nat (52 - e)"
    have "ulp x = 2 powr of_int (e - 52)" by (simp add: ulp_def e_def)
    also have "of_int (e - 52) = - real k" using True by (simp add: k_def)
    also have "2 powr (- real k) = 1 / 2 ^ k" by (simp add: powr_minus powr_realpow field_simps)
    finally have "x / ulp x = of_int (n * 2 ^ k)" by (simp add: x_def)
    then show ?thesis unfolding x_def[symmetric] by (rule round53_exact)
  next
    case False
    then have e: "e = 53" using e53 by simp
    have "(2::real) ^ 53 \<le> \<bar>x\<bar>" using lo e by (simp add: powr_realpow)
    then have "\<bar>x\<bar> = 2 ^ 53" using hi by simp
    then have "x = 2 ^ 53 \<or> x = - (2 ^ 53)" by linarith
    moreover have "ulp x = 2" using e by (simp add: ulp_def e_def)
    ultimately have "x / ulp x = of_int (2 ^ 52) \<or> x / ulp x = of_int (- (2 ^ 52))" by auto
    then show ?thesis unfolding x_def[symmetric] using round53_exact by blast
  qed
qed

lemma round53_eval_hi:
  assumes "2 ^ (52 + k) \<le> \<bar>x\<bar>" and "\<bar>x\<bar> < 2 ^ (53 + k)"
  shows "round53 x = of_int (rne (x / 2 ^ k)) * 2 ^ k"
proof -
  have x0: "x \<noteq> 0" using assms(1) by (smt (verit) zero_less_power abs_zero)
  have "expo x = int (52 + k)"
  proof (rule expo_unique)
    have "(2::real) powr real (52 + k) = 2 ^ (52 + k)" by (rule powr_realpow) simp
    then show "2 powr real_of_int (int (52 + k)) \<le> \<bar>x\<bar>"
      using assms(1) by simp
    have "real_of_int (int (52 + k)) + 1 = real (53 + k)" by simp
    then show "\<bar>x\<bar> < 2 powr (real_of_int (int (52 + k)) + 1)"
      using assms(2) by (simp only: powr_realpow zero_less_numeral)
  qed
  then have "ulp x = 2 ^ k" by (simp add: ulp_def powr_realpow)
  then show ?thesis using x0 by (simp add: round53_def)
qed

lemma round53_eval_lo:
  assumes "2 ^ 52 \<le> \<bar>x\<bar> * 2 ^ k" and "\<bar>x\<bar> * 2 ^ k < 2 ^ 53"
  shows "round53 x = of_int (rne (x * 2 ^ k)) / 2 ^ k"
proof -
  have x0: "x \<noteq> 0" using assms(1) by auto
  have "expo x = 52 - int k"
  proof (rule expo_unique)
    have "2 powr real_of_int (52 - int k) = 2 ^ 52 / 2 ^ k"
      by (simp add: powr_diff powr_realpow)
    also have "\<dots> \<le> \<bar>x\<bar>" using assms(1) by (simp add: field_simps)
    finally show "2 powr real_of_int (52 - int k) \<le> \<bar>x\<bar>" .
    have "real_of_int (52 - int k) + 1 = 53 - real k" by simp
    then have "2 powr (real_of_int (52 - int k) + 1) = 2 ^ 53 / 2 ^ k"
      by (simp add: powr_diff powr_realpow)
    moreover have "\<bar>x\<bar> < 2 ^ 53 / 2 ^ k" using assms(2) by (simp add: field_simps)
    ultimately show "\<bar>x\<bar> < 2 powr (real_of_int (52 - int k) + 1)" by simp
  qed
  then have "ulp x = 2 powr (- real k)" by (simp add: ulp_def)
  also have "\<dots> = 1 / 2 ^ k" by (simp add: powr_minus powr_realpow divide_inverse)
  finally show ?thesis using x0 by (simp add: round53_def)
qed

lemma round53_eq_0_iff: "round53 x = 0 \<longleftrightarrow> x = 0"
proof
  assume f: "round53 x = 0"
  show "x = 0"
  proof (rule ccontr)
    assume x0: "x \<noteq> 0"
    define y where "y = x / ulp x"
    have u: "0 < ulp x" by (simp add: ulp_def)
    have "rne y = 0" using f x0 u by (simp add: round53_def y_def)
    then have small: "\<bar>y\<bar> \<le> 1 / 2" using rne_bounds[of y] by simp
    have "2 powr of_int (expo x) \<le> \<bar>x\<bar>" by (rule expo_bounds(1)[OF x0])
    then have "2 powr of_int (expo x) / ulp x \<le> \<bar>x\<bar> / ulp x"
      using u by (simp add: divide_right_mono)
    moreover have "2 powr of_int (expo x) / ulp x = 2 powr 52"
      by (simp add: ulp_def powr_diff)
    moreover have "\<bar>x\<bar> / ulp x = \<bar>y\<bar>" using u by (simp add: y_def)
    ultimately have "2 powr 52 \<le> \<bar>y\<bar>" by simp
    then show False using small by simp
  qed
qed (simp add: round53_def)

lemma round53_numeral: "numeral w \<le> (2::int) ^ 53 \<Longrightarrow> round53 (numeral w) = numeral w"
  using round53_of_int[of "numeral w"] by simp

lemma round53_neg_numeral: "numeral w \<le> (2::int) ^ 53 \<Longrightarrow> round53 (- numeral w) = - numeral w"
  using round53_of_int[of "- numeral w"] by simp

lemma round53_1: "round53 1 = 1"
  using round53_of_int[of 1] by simp

section \<open>Rounding to a float\<close>

lemma binary64_0: "binary64 0 = Fin 0"
  by (simp add: binary64_def rne_def)

lemma binary64_normal:
  "1 / 2 ^ 1022 \<le> \<bar>x\<bar> \<Longrightarrow> \<bar>round53 x\<bar> < 2 ^ 1024 \<Longrightarrow> binary64 x = Fin (round53 x)"
  by (simp add: binary64_def)

lemma binary64_of_int:
  assumes "\<bar>n\<bar> \<le> 2 ^ 53"
  shows "binary64 (of_int n) = Fin (of_int n)"
proof (cases "n = 0")
  case True
  then show ?thesis by (simp add: binary64_0)
next
  case False
  then have "1 \<le> \<bar>n\<bar>" by simp
  then have "real_of_int 1 \<le> real_of_int \<bar>n\<bar>" by (simp only: of_int_le_iff)
  then have one: "1 \<le> \<bar>real_of_int n\<bar>" by simp
  have "(1 :: real) / 2 ^ 1022 \<le> 1" by simp
  then have lo: "1 / 2 ^ 1022 \<le> \<bar>real_of_int n\<bar>" using one by linarith
  have r: "round53 (of_int n) = of_int n" by (rule round53_of_int[OF assms])
  have "real_of_int \<bar>n\<bar> \<le> real_of_int (2 ^ 53)" using assms by (simp only: of_int_le_iff)
  then have "\<bar>real_of_int n\<bar> \<le> 2 ^ 53" by simp
  moreover have "(2 :: real) ^ 53 < 2 ^ 1024" by simp
  ultimately have "\<bar>round53 (real_of_int n)\<bar> < 2 ^ 1024" unfolding r by linarith
  then show ?thesis using binary64_normal[OF lo] r by simp
qed

lemma binary64_Ints:
  assumes "x \<in> \<int>" and "\<bar>x\<bar> \<le> 2 ^ 53"
  shows "binary64 x = Fin x"
proof -
  from assms(1) obtain n where x: "x = of_int n" by (rule Ints_cases)
  have "real_of_int \<bar>n\<bar> \<le> real_of_int (2 ^ 53)" using assms(2) x by simp
  then have "\<bar>n\<bar> \<le> 2 ^ 53" by (simp only: of_int_le_iff)
  then show ?thesis unfolding x by (rule binary64_of_int)
qed

lemma binary64_numeral:
  "numeral w \<le> (2::int) ^ 53 \<Longrightarrow> binary64 (numeral w) = Fin (numeral w)"
  using binary64_of_int[of "numeral w"] by simp

lemma binary64_neg_numeral:
  "numeral w \<le> (2::int) ^ 53 \<Longrightarrow> binary64 (- numeral w) = Fin (- numeral w)"
  using binary64_of_int[of "- numeral w"] by simp

lemma binary64_1: "binary64 1 = Fin 1"
  using binary64_of_int[of 1] by simp

lemma rne_abs_le:
  assumes "\<bar>y\<bar> \<le> of_int m"
  shows "\<bar>rne y\<bar> \<le> m"
proof -
  have "\<bar>real_of_int (rne y)\<bar> \<le> of_int m + 1 / 2" using rne_bounds[of y] assms by linarith
  then have "real_of_int \<bar>rne y\<bar> < real_of_int (m + 1)" by simp
  then have "\<bar>rne y\<bar> < m + 1" by (simp only: of_int_less_iff)
  then show ?thesis by simp
qed

lemma round53_abs_le:
  assumes "\<bar>x\<bar> \<le> 2 ^ k"
  shows "\<bar>round53 x\<bar> \<le> 2 ^ k"
proof (cases "x = 0")
  case True
  then show ?thesis by (simp add: round53_0)
next
  case False
  define e where "e = expo x"
  define u where "u = ulp x"
  have u: "u = 2 powr of_int (e - 52)" "0 < u" by (simp_all add: u_def e_def ulp_def)
  have lo: "2 powr of_int e \<le> \<bar>x\<bar>" and hi: "\<bar>x\<bar> < 2 powr (of_int e + 1)"
    unfolding e_def using expo_bounds[OF False] by simp_all
  have pk: "(2 :: real) powr real k = 2 ^ k" by (rule powr_realpow) simp
  have ek: "e \<le> int k"
  proof (rule ccontr)
    assume "\<not> e \<le> int k"
    then have "real k + 1 \<le> of_int e" by linarith
    then have "(2 :: real) powr (real k + 1) \<le> 2 powr of_int e" by (rule powr_mono) simp
    moreover have "(2 :: real) powr (real k + 1) = 2 * 2 ^ k" by (simp add: powr_add pk)
    moreover have "0 < (2 :: real) ^ k" by simp
    ultimately show False using lo assms by linarith
  qed
  have "\<bar>x / u\<bar> = \<bar>x\<bar> / u" using u(2) by simp
  also have "\<dots> < 2 powr (of_int e + 1) / u" using hi u(2) by (simp add: divide_strict_right_mono)
  also have "\<dots> = 2 powr 53" unfolding u(1) by (simp add: powr_diff[symmetric])
  finally have "\<bar>x / u\<bar> \<le> real_of_int (2 ^ 53)" by simp
  then have m: "\<bar>rne (x / u)\<bar> \<le> 2 ^ 53" by (rule rne_abs_le)
  have r: "round53 x = of_int (rne (x / u)) * u" using False by (simp add: round53_def u_def)
  have "\<bar>round53 x\<bar> = real_of_int \<bar>rne (x / u)\<bar> * u" unfolding r using u(2) by (simp add: abs_mult)
  also have "\<dots> \<le> real_of_int (2 ^ 53) * u"
  proof (rule mult_right_mono)
    show "real_of_int \<bar>rne (x / u)\<bar> \<le> real_of_int (2 ^ 53)" using m by (simp only: of_int_le_iff)
    show "0 \<le> u" using u(2) by simp
  qed
  also have "\<dots> = 2 powr 53 * 2 powr of_int (e - 52)" unfolding u(1) by simp
  also have "\<dots> = 2 powr (53 + of_int (e - 52))" by (rule powr_add[symmetric])
  also have "53 + real_of_int (e - 52) = of_int e + 1" by simp
  finally have b: "\<bar>round53 x\<bar> \<le> 2 powr (of_int e + 1)" .
  show ?thesis
  proof (cases "e < int k")
    case True
    then have "of_int e + 1 \<le> real k" by linarith
    then have "(2 :: real) powr (of_int e + 1) \<le> 2 powr real k" by (rule powr_mono) simp
    then show ?thesis using b pk by simp
  next
    case False
    then have e: "e = int k" using ek by simp
    have "2 powr of_int e = (2 :: real) ^ k" unfolding e using pk by simp
    then have x: "\<bar>x\<bar> = 2 ^ k" using lo assms by simp
    have iu: "1 / u = 2 powr (52 - real k)" unfolding u(1) e by (simp add: powr_diff field_simps)
    have "\<bar>x\<bar> / u = \<bar>x\<bar> * (1 / u)" by simp
    also have "\<dots> = 2 powr real k * 2 powr (52 - real k)" unfolding iu x pk ..
    also have "\<dots> = 2 powr (real k + (52 - real k))" by (rule powr_add[symmetric])
    also have "real k + (52 - real k) = 52" by simp
    finally have "\<bar>x\<bar> / u = 2 powr 52" .
    then have "\<bar>x\<bar> / u = real_of_int (2 ^ 52)" by simp
    then have "x / u = of_int (2 ^ 52) \<or> x / u = of_int (- (2 ^ 52))"
      using u(2) by (cases "0 \<le> x") (simp_all add: field_simps)
    then have "round53 x = x" unfolding u_def using round53_exact by blast
    then show ?thesis using assms by simp
  qed
qed

lemma binary64_finite:
  assumes "\<bar>x\<bar> \<le> 2 ^ 1023"
  shows "\<exists>y. binary64 x = Fin y"
proof -
  have "\<bar>round53 x\<bar> \<le> 2 ^ 1023" using assms by (rule round53_abs_le)
  moreover have "(2 :: real) ^ 1023 < 2 ^ 1024" by simp
  ultimately have n: "\<not> 2 ^ 1024 \<le> \<bar>round53 x\<bar>" by linarith
  show ?thesis
  proof (cases "\<bar>x\<bar> < 1 / 2 ^ 1022")
    case True
    then have "binary64 x = Fin (of_int (rne (x * 2 ^ 1074)) / 2 ^ 1074)"
      unfolding binary64_def by (simp only: if_True)
    then show ?thesis by blast
  next
    case False
    then have "binary64 x = Fin (round53 x)"
      unfolding binary64_def using n by (simp only: if_False)
    then show ?thesis by blast
  qed
qed

lemma binary64_overflow:
  assumes "2 ^ 1024 \<le> \<bar>x\<bar>"
  shows "binary64 x = Infinity (x < 0)"
proof -
  have x0: "x \<noteq> 0" using assms by auto
  define e where "e = expo x"
  define u where "u = ulp x"
  have u: "u = 2 powr of_int (e - 52)" "0 < u" by (simp_all add: u_def e_def ulp_def)
  have lo: "2 powr of_int e \<le> \<bar>x\<bar>" unfolding e_def using expo_bounds(1)[OF x0] .
  have "2 powr of_int e / u \<le> \<bar>x\<bar> / u" using lo u(2) by (simp add: divide_right_mono)
  moreover have "2 powr of_int e / u = 2 powr 52" unfolding u(1) by (simp add: powr_diff)
  ultimately have l: "real_of_int (2 ^ 52) \<le> \<bar>x / u\<bar>" using u(2) by simp
  have "real_of_int (2 ^ 52) - 1 / 2 \<le> \<bar>real_of_int (rne (x / u))\<bar>"
    using l rne_bounds[of "x / u"] by linarith
  then have "real_of_int (2 ^ 52 - 1) < real_of_int \<bar>rne (x / u)\<bar>" by simp
  then have "2 ^ 52 - 1 < \<bar>rne (x / u)\<bar>" by (simp only: of_int_less_iff)
  then have "2 ^ 52 \<le> \<bar>rne (x / u)\<bar>" by simp
  then have m: "real_of_int (2 ^ 52) \<le> real_of_int \<bar>rne (x / u)\<bar>" by (simp only: of_int_le_iff)
  have r: "\<bar>round53 x\<bar> = real_of_int \<bar>rne (x / u)\<bar> * u"
    using x0 u(2) by (simp add: round53_def u_def abs_mult)
  have "(2 :: real) powr of_int e = 2 powr (52 + of_int (e - 52))" by simp
  also have "\<dots> = 2 powr 52 * u" unfolding u(1) by (rule powr_add)
  also have "\<dots> \<le> \<bar>round53 x\<bar>" unfolding r using m u(2) by (intro mult_right_mono) simp_all
  finally have ge: "2 powr of_int e \<le> \<bar>round53 x\<bar>" .
  have e: "1024 \<le> e"
  proof (rule ccontr)
    assume "\<not> 1024 \<le> e"
    then have "of_int e + 1 \<le> (1024 :: real)" by linarith
    then have "(2 :: real) powr (of_int e + 1) \<le> 2 powr 1024" by (rule powr_mono) simp
    moreover have "\<bar>x\<bar> < 2 powr (of_int e + 1)" unfolding e_def using expo_bounds(2)[OF x0] .
    ultimately show False using assms by simp
  qed
  then have "(1024 :: real) \<le> of_int e" by linarith
  then have "(2 :: real) powr 1024 \<le> 2 powr of_int e" by (rule powr_mono) simp
  then have "2 ^ 1024 \<le> \<bar>round53 x\<bar>" using ge by simp
  moreover have "\<not> \<bar>x\<bar> < 1 / 2 ^ 1022"
  proof -
    have "(1 :: real) / 2 ^ 1022 \<le> 1" by simp
    moreover have "(1 :: real) \<le> 2 ^ 1024" by simp
    ultimately show ?thesis using assms by linarith
  qed
  ultimately show ?thesis unfolding binary64_def by (simp only: if_True if_False)
qed


section \<open>The normaliser and the division loops: basic facts\<close>

lemma float_of_int_small: "\<bar>n\<bar> \<le> 2 ^ 53 \<Longrightarrow> float_of_int n = Inr (Fin (of_int n))"
  by (simp add: float_of_int_def binary64_of_int)

lemma float_of_int_numeral:
  "numeral w \<le> (2::int) ^ 53 \<Longrightarrow> float_of_int (numeral w) = Inr (Fin (numeral w))"
  using float_of_int_small[of "numeral w"] by simp

lemma float_of_int_neg_numeral:
  "numeral w \<le> (2::int) ^ 53 \<Longrightarrow> float_of_int (- numeral w) = Inr (Fin (- numeral w))"
  using float_of_int_small[of "- numeral w"] by simp

lemma float_of_int_0: "float_of_int 0 = Inr (Fin 0)"
  using float_of_int_small[of 0] by simp

lemma float_of_int_1: "float_of_int 1 = Inr (Fin 1)"
  using float_of_int_small[of 1] by simp

lemma binary64_neg_1: "binary64 (- 1) = Fin (- 1)"
  using binary64_of_int[of "- 1"] by simp

lemma float_of_int_neg_1: "float_of_int (- 1) = Inr (Fin (- 1))"
  using float_of_int_small[of "- 1"] by simp

lemmas small_ints = float_of_int_numeral float_of_int_neg_numeral float_of_int_0 float_of_int_1
  float_of_int_neg_1 binary64_numeral binary64_neg_numeral binary64_0 binary64_1 binary64_neg_1

lemmas parse_defs = float_of_str_def strip_def is_space_def float_strip_def is_float_space_def
  parse_mantissa_def parse_exponent_def
  is_digit_def digit_val_def lower_code_def same_word_def decimal_def

lemma as_numbers_length: "as_numbers xs = Inr vs \<Longrightarrow> length vs = length xs"
  by (induction xs arbitrary: vs) (auto split: sum.splits)

lemma as_list_Inr: "as_list L = Inr nums \<longleftrightarrow> L \<noteq> [] \<and> as_numbers L = Inr nums"
  by (simp add: as_list_def)




lemma divide_loops_equal: "divide_multiple_loop r ns = divide_loop r ns"
  by (induction ns arbitrary: r) (auto split: sum.splits)

section \<open>Sequential division\<close>




text \<open>
  Claim C8. \<^verbatim>\<open>divide\<close> and \<^verbatim>\<open>divide_multiple\<close> are extensionally equal: on every
  list they return the same number or fail with the same error.
\<close>

theorem divide_equals_divide_multiple: "divide_multiple L = divide_tool L"
  by (simp add: divide_multiple_def divide_tool_def divide_loops_equal split: sum.splits list.splits)

section \<open>Integers from numbers\<close>

lemma is_integer_frac: "is_integer f \<longleftrightarrow> (\<exists>r. f = Fin r \<and> frac r = 0)"
  by (cases f) (auto simp: frac_def)

lemma py_int_integer: "of_int \<lfloor>r\<rfloor> = r \<Longrightarrow> py_int (Fin r) = Inr \<lfloor>r\<rfloor>"
proof -
  assume a: "of_int \<lfloor>r\<rfloor> = r"
  then have "\<lceil>r\<rceil> = \<lfloor>r\<rfloor>" by (metis ceiling_of_int)
  then show ?thesis by simp
qed

text \<open>
  Claim C5. For every value \<open>v\<close>, \<^verbatim>\<open>_as_int(v)\<close> succeeds if and only if
  \<^verbatim>\<open>_as_number(v)\<close> succeeds with a number of fractional part zero (a finite float
  that \<^verbatim>\<open>is_integer\<close> accepts); it then returns that number as an integer; it fails with
  \<open>NotAnInteger\<close> whenever the fractional part is not zero, and also on an infinity and
  on a NaN, and passes on the failure of \<^verbatim>\<open>_as_number\<close>. It never truncates: a
  result \<open>n\<close> is the number itself.
\<close>

theorem as_int_spec:
  "((\<exists>n. as_int v = Inr n) \<longleftrightarrow> (\<exists>r. as_number v = Inr (Fin r) \<and> frac r = 0))
   \<and> (as_number v = Inr (Fin r) \<and> frac r = 0 \<longrightarrow> as_int v = Inr \<lfloor>r\<rfloor> \<and> of_int \<lfloor>r\<rfloor> = r)
   \<and> (as_number v = Inr (Fin r) \<and> frac r \<noteq> 0 \<longrightarrow> as_int v = Inl NotAnInteger)
   \<and> (as_number v = Inr (Infinity s) \<or> as_number v = Inr NaN \<longrightarrow> as_int v = Inl NotAnInteger)
   \<and> (as_int v = Inr n \<longrightarrow> as_number v = Inr (Fin (of_int n)))
   \<and> (as_number v = Inl e \<longrightarrow> as_int v = Inl e)"
proof (cases "as_number v")
  case (Inl e')
  then show ?thesis by (simp add: as_int_def)
next
  case (Inr f)
  show ?thesis
  proof (cases f)
    case (Fin a)
    note N = Inr[unfolded Fin]
    show ?thesis
    proof (cases "of_int \<lfloor>a\<rfloor> = a")
      case True
      have F: "frac a = 0" using True by (metis frac_of_int)
      have I: "is_integer (Fin a)" using F by (simp add: is_integer_frac)
      have A: "as_int v = Inr \<lfloor>a\<rfloor>"
        unfolding as_int_def N using I py_int_integer[OF True] by (simp del: py_int.simps is_integer.simps)
      have c1: "(\<exists>n. as_int v = Inr n) \<longleftrightarrow> (\<exists>r. as_number v = Inr (Fin r) \<and> frac r = 0)"
        using A N F by blast
      have c2: "as_number v = Inr (Fin r) \<and> frac r = 0 \<longrightarrow>
          as_int v = Inr \<lfloor>r\<rfloor> \<and> of_int \<lfloor>r\<rfloor> = r"
      proof
        assume "as_number v = Inr (Fin r) \<and> frac r = 0"
        then have "r = a" using N by simp
        then show "as_int v = Inr \<lfloor>r\<rfloor> \<and> of_int \<lfloor>r\<rfloor> = r" using A True by blast
      qed
      have c3: "as_number v = Inr (Fin r) \<and> frac r \<noteq> 0 \<longrightarrow> as_int v = Inl NotAnInteger"
      proof
        assume "as_number v = Inr (Fin r) \<and> frac r \<noteq> 0"
        then have "r = a" "frac r \<noteq> 0" using N by simp_all
        then show "as_int v = Inl NotAnInteger" using F by blast
      qed
      have c4: "as_number v = Inr (Infinity s) \<or> as_number v = Inr NaN \<longrightarrow>
          as_int v = Inl NotAnInteger"
        using N by simp
      have c5: "as_int v = Inr n \<longrightarrow> as_number v = Inr (Fin (of_int n))"
      proof
        assume "as_int v = Inr n"
        then have "n = \<lfloor>a\<rfloor>" using A by simp
        then have "real_of_int n = a" using True by blast
        then show "as_number v = Inr (Fin (of_int n))" using N by blast
      qed
      have c6: "as_number v = Inl e \<longrightarrow> as_int v = Inl e" using N by simp
      show ?thesis using c1 c2 c3 c4 c5 c6 by blast
    next
      case False
      then have F: "frac a \<noteq> 0" by (metis frac_eq_0_iff Ints_cases floor_of_int)
      have I: "\<not> is_integer (Fin a)" using F by (simp add: is_integer_frac)
      have A: "as_int v = Inl NotAnInteger"
        unfolding as_int_def N using I by (simp del: is_integer.simps)
      have c1: "(\<exists>n. as_int v = Inr n) \<longleftrightarrow> (\<exists>r. as_number v = Inr (Fin r) \<and> frac r = 0)"
        using A N F by auto
      have c2: "as_number v = Inr (Fin r) \<and> frac r = 0 \<longrightarrow>
          as_int v = Inr \<lfloor>r\<rfloor> \<and> of_int \<lfloor>r\<rfloor> = r"
        using N F by auto
      have c3: "as_number v = Inr (Fin r) \<and> frac r \<noteq> 0 \<longrightarrow> as_int v = Inl NotAnInteger"
        using A by blast
      have c4: "as_number v = Inr (Infinity s) \<or> as_number v = Inr NaN \<longrightarrow>
          as_int v = Inl NotAnInteger"
        using A by blast
      have c5: "as_int v = Inr n \<longrightarrow> as_number v = Inr (Fin (of_int n))" using A by simp
      have c6: "as_number v = Inl e \<longrightarrow> as_int v = Inl e" using N by simp
      show ?thesis using c1 c2 c3 c4 c5 c6 by blast
    qed
  next
    case (Infinity t)
    then show ?thesis using Inr by (simp add: as_int_def)
  next
    case NaN
    then show ?thesis using Inr by (simp add: as_int_def)
  qed
qed

theorem as_int_spec_witness:
  "as_number (PFloat 3) = Inr (Fin 3) \<and> frac (3::real) = 0 \<and> as_int (PFloat 3) = Inr 3
   \<and> as_number (PFloat 3.5) = Inr (Fin 3.5) \<and> frac (3.5::real) \<noteq> 0
   \<and> as_int (PFloat 3.5) = Inl NotAnInteger
   \<and> as_number (PStr '' 3.0 '') = Inr (Fin 3) \<and> as_int (PStr '' 3.0 '') = Inr 3
   \<and> as_number (PStr [CHR 0xA0, CHR ''3'']) = Inr (Fin 3)
   \<and> as_int (PStr [CHR 0xA0, CHR ''3'']) = Inr 3
   \<and> as_number (PStr ''1e400'') = Inr PosInf \<and> as_int (PStr ''1e400'') = Inl NotAnInteger
   \<and> as_number (PStr ''nan'') = Inr NaN \<and> as_int (PStr ''nan'') = Inl NotAnInteger
   \<and> as_number (PInt (10 ^ 400)) = Inl PyOverflowError
   \<and> as_int (PInt (10 ^ 400)) = Inl PyOverflowError
   \<and> as_number PNone = Inl (InvalidNumber PNone) \<and> as_int PNone = Inl (InvalidNumber PNone)"
proof -
  have f3: "frac (3::real) = 0" by simp
  have "\<lfloor>3.5::real\<rfloor> = 3" by linarith
  then have f35: "frac (3.5::real) \<noteq> 0" by (simp add: frac_def)
  have n3: "as_number (PFloat 3) = Inr (Fin 3)" and n35: "as_number (PFloat 3.5) = Inr (Fin 3.5)"
    and nn: "as_number PNone = Inl (InvalidNumber PNone)" by simp_all
  have s: "as_number (PStr '' 3.0 '') = Inr (Fin 3)"
    by (simp add: parse_defs small_ints)
  have t: "as_number (PStr [CHR 0xA0, CHR ''3'']) = Inr (Fin 3)"
    by (simp add: parse_defs small_ints)
  have o: "binary64 (10 ^ 400) = PosInf" using binary64_overflow[of "10 ^ 400"] by simp
  have i: "as_number (PStr ''1e400'') = Inr PosInf"
    by (simp add: parse_defs o[simplified])
  have q: "as_number (PStr ''nan'') = Inr NaN"
    by (simp add: parse_defs)
  have b: "as_number (PInt (10 ^ 400)) = Inl PyOverflowError"
    using o by (simp add: float_of_int_def)
  have 1: "as_int (PFloat 3) = Inr 3"
    using as_int_spec[of "PFloat 3" 3 False 3 NotAnInteger, THEN conjunct2, THEN conjunct1] n3 f3
    by simp
  have 2: "as_int (PFloat 3.5) = Inl NotAnInteger"
    using as_int_spec[of "PFloat 3.5" "3.5" False 3 NotAnInteger,
        THEN conjunct2, THEN conjunct2, THEN conjunct1] n35 f35 by simp
  have 3: "as_int (PStr '' 3.0 '') = Inr 3"
    using as_int_spec[of "PStr '' 3.0 ''" 3 False 3 NotAnInteger, THEN conjunct2, THEN conjunct1]
      s f3 by simp
  have 4: "as_int (PStr [CHR 0xA0, CHR ''3'']) = Inr 3"
    using as_int_spec[of "PStr [CHR 0xA0, CHR ''3'']" 3 False 3 NotAnInteger,
        THEN conjunct2, THEN conjunct1] t f3 by simp
  have 5: "as_int (PStr ''1e400'') = Inl NotAnInteger"
    using as_int_spec[of "PStr ''1e400''" 3 False 3 NotAnInteger,
        THEN conjunct2, THEN conjunct2, THEN conjunct2, THEN conjunct1] i by simp
  have 6: "as_int (PStr ''nan'') = Inl NotAnInteger"
    using as_int_spec[of "PStr ''nan''" 3 False 3 NotAnInteger,
        THEN conjunct2, THEN conjunct2, THEN conjunct2, THEN conjunct1] q by simp
  have 7: "as_int (PInt (10 ^ 400)) = Inl PyOverflowError"
    using as_int_spec[of "PInt (10 ^ 400)" 3 False 3 PyOverflowError,
        THEN conjunct2, THEN conjunct2, THEN conjunct2, THEN conjunct2, THEN conjunct2] b
    by simp
  have 8: "as_int PNone = Inl (InvalidNumber PNone)"
    using as_int_spec[of PNone 3 False 3 "InvalidNumber PNone",
        THEN conjunct2, THEN conjunct2, THEN conjunct2, THEN conjunct2, THEN conjunct2] nn
    by simp
  show ?thesis using f3 f35 n3 n35 nn s t i q b 1 2 3 4 5 6 7 8 by (simp only: simp_thms)
qed

section \<open>Errors of the runtime\<close>

text \<open>
  Claim C2 (the code departs from it). \<^verbatim>\<open>modulo\<close> does not guard its divisor: for
  every valid number \<open>a\<close> and every divisor that normalises to zero it fails with the
  runtime's \<^verbatim>\<open>ZeroDivisionError\<close>, which is none of the named error kinds, whereas
  \<^verbatim>\<open>divide\<close> guards the same case and raises \<open>DivisionByZero\<close>.
\<close>

theorem modulo_by_zero_unguarded:
  "as_number a = Inr va \<Longrightarrow> as_number b = Inr (Fin 0) \<Longrightarrow>
   modulo_tool a b = Inl PyZeroDivisionError \<and> \<not> named_kind PyZeroDivisionError"
  by (simp add: modulo_tool_def py_mod_def)

theorem modulo_by_zero_unguarded_witness:
  "as_number (PInt 7) = Inr (Fin 7) \<and> as_number (PInt 0) = Inr (Fin 0)
   \<and> modulo_tool (PInt 7) (PInt 0) = Inl PyZeroDivisionError \<and> \<not> named_kind PyZeroDivisionError
   \<and> divide_tool [PInt 7, PInt 0] = Inl DivisionByZero \<and> named_kind DivisionByZero"
proof -
  have a: "as_number (PInt 7) = Inr (Fin 7)" by (simp add: small_ints)
  have b: "as_number (PInt 0) = Inr (Fin 0)" by (simp add: small_ints)
  have d: "divide_tool [PInt 7, PInt 0] = Inl DivisionByZero"
    by (simp add: divide_tool_def as_list_def small_ints)
  show ?thesis using modulo_by_zero_unguarded[OF a b] a b d by simp
qed

text \<open>
  Claim C3 (the code departs from it). The statistics tools do not normalise their list:
  on the list of the numeric strings \<^verbatim>\<open>"1"\<close> and \<^verbatim>\<open>"2"\<close> all four fail with the
  library's \<^verbatim>\<open>TypeError\<close>, where \<^verbatim>\<open>_as_list\<close> returns the floats 1 and 2,
  \<^verbatim>\<open>add\<close> returns 3 and \<^verbatim>\<open>mean\<close> of the floats 1 and 2 is 1.5.
\<close>

theorem statistics_skip_normaliser:
  "mean [PStr ''1'', PStr ''2''] = Inl PyTypeError
   \<and> median [PStr ''1'', PStr ''2''] = Inl PyTypeError
   \<and> stdev [PStr ''1'', PStr ''2''] = Inl PyTypeError
   \<and> variance [PStr ''1'', PStr ''2''] = Inl PyTypeError
   \<and> as_list [PStr ''1'', PStr ''2''] = Inr [Fin 1, Fin 2]
   \<and> add R [PStr ''1'', PStr ''2''] = Inr (Fin 3)
   \<and> mean [PFloat 1, PFloat 2] = Inr 1.5"
proof -
  have l: "as_list [PStr ''1'', PStr ''2''] = Inr [Fin 1, Fin 2]"
    by (simp add: as_list_def parse_defs small_ints)
  have "py_sum k [Fin 1, Fin 2] = Fin 3" for k
    by (cases k) (simp_all add: small_ints fsub_def)
  then have "add R [PStr ''1'', PStr ''2''] = Inr (Fin 3)"
    by (simp add: add_def l)
  moreover have "round53 1.5 = 1.5"
    by (simp add: round53_eval_lo[where k=52] rne_def)
  then have "binary64 1.5 = Fin 1.5"
    using binary64_normal[of "1.5"] by simp
  then have "mean [PFloat 1, PFloat 2] = Inr 1.5"
    by (simp add: mean_def statistics_mean_def convert_result_def exact_mean_def to_float_def)
  moreover have "median [PStr ''1'', PStr ''2''] = Inl PyTypeError"
    by (simp add: median_def statistics_median_def py_sorted_def py_add_def)
  moreover have "mean [PStr ''1'', PStr ''2''] = Inl PyTypeError"
    by (simp add: mean_def statistics_mean_def)
  moreover have "stdev [PStr ''1'', PStr ''2''] = Inl PyTypeError"
    by (simp add: stdev_def statistics_stdev_def)
  moreover have "variance [PStr ''1'', PStr ''2''] = Inl PyTypeError"
    by (simp add: variance_def statistics_variance_def)
  ultimately show ?thesis using l by simp
qed

section \<open>The guards of the statistics tools\<close>

lemma py_lt_error: "py_lt a b = Inl e \<Longrightarrow> e = PyTypeError"
  by (cases a; cases b) (auto split: option.splits)

lemma py_insort_error: "py_insort x ys = Inl e \<Longrightarrow> e = PyTypeError"
  by (induction ys arbitrary: e) (auto split: sum.splits if_splits dest: py_lt_error)

lemma py_sort_from_error: "py_sort_from acc xs = Inl e \<Longrightarrow> e = PyTypeError"
  by (induction xs arbitrary: acc) (auto split: sum.splits dest: py_insort_error)

lemma float_operand_error: "float_operand a = Inl e \<Longrightarrow> e = PyTypeError \<or> e = PyOverflowError"
  by (cases a) (auto simp: float_of_int_def split: pyfloat.splits)

lemma py_add_error: "py_add a b = Inl e \<Longrightarrow> e = PyTypeError \<or> e = PyOverflowError"
  by (auto simp: py_add_def simp del: float_operand.simps
      split: pyval.splits if_splits sum.splits dest: float_operand_error)

lemma py_halve_error: "py_halve c = Inl e \<Longrightarrow> e = PyTypeError \<or> e = PyOverflowError"
  by (cases c) (auto split: pyfloat.splits)

lemma statistics_median_error:
  "statistics_median data = Inl e \<Longrightarrow> e = PyTypeError \<or> e = PyStatisticsError \<or> e = PyOverflowError"
  by (auto simp: statistics_median_def py_sorted_def Let_def
      split: sum.splits if_splits dest: py_sort_from_error py_add_error py_halve_error)

lemma to_float_error: "to_float q = Inl e \<Longrightarrow> e = PyOverflowError"
  by (auto simp: to_float_def split: pyfloat.splits)

lemma convert_result_error: "convert_result data q = Inl e \<Longrightarrow> e = PyOverflowError"
  by (auto simp: convert_result_def split: if_splits dest: to_float_error)

lemma to_float_0: "to_float 0 = Inr 0"
  by (simp add: to_float_def binary64_0)

lemma statistics_mean_error:
  "statistics_mean data = Inl e \<Longrightarrow> e = PyTypeError \<or> e = PyStatisticsError \<or> e = PyOverflowError"
  by (auto simp: statistics_mean_def split: if_splits option.splits dest: convert_result_error)

lemma statistics_variance_error:
  "statistics_variance data = Inl e \<Longrightarrow> e = PyTypeError \<or> e = PyStatisticsError \<or> e = PyOverflowError"
  by (auto simp: statistics_variance_def split: if_splits option.splits dest: convert_result_error)

lemma statistics_stdev_error:
  "statistics_stdev data = Inl e \<Longrightarrow> e = PyTypeError \<or> e = PyStatisticsError \<or> e = PyOverflowError"
  by (auto simp: statistics_stdev_def split: if_splits option.splits dest: to_float_error)

lemma those_replicate: "those (replicate n (Some r)) = Some (replicate n r)"
  by (induction n) simp_all

lemma exact_variance_replicate: "0 < n \<Longrightarrow> exact_variance (replicate n r) = 0"
proof -
  assume n: "0 < n"
  have m: "exact_mean (replicate n r) = r"
    using n by (simp add: exact_mean_def sum_list_replicate)
  have "map (\<lambda>x. (x - r)\<^sup>2) (replicate n r) = replicate n 0" by simp
  then show ?thesis by (simp add: exact_variance_def m sum_list_replicate)
qed

text \<open>
  Claim C6. For every list \<open>L\<close>, \<^verbatim>\<open>stdev(L)\<close> and \<^verbatim>\<open>variance(L)\<close> fail with
  \<open>InsufficientData\<close> if and only if \<open>L\<close> has fewer than two elements, and
  \<^verbatim>\<open>mean(L)\<close> and \<^verbatim>\<open>median(L)\<close> fail with \<open>EmptyInput\<close> if and only if \<open>L\<close> is
  empty; for every \<open>n \<ge> 2\<close>, \<^verbatim>\<open>stdev\<close> of the list of \<open>n\<close> copies of one number
  returns 0.
\<close>

theorem statistics_guards:
  "(stdev L = Inl InsufficientData \<longleftrightarrow> length L < 2)
   \<and> (variance L = Inl InsufficientData \<longleftrightarrow> length L < 2)
   \<and> (mean L = Inl EmptyInput \<longleftrightarrow> L = [])
   \<and> (median L = Inl EmptyInput \<longleftrightarrow> L = [])
   \<and> (2 \<le> n \<and> exact_value x = Some r \<longrightarrow> stdev (replicate n x) = Inr 0)"
proof -
  have 1: "stdev L = Inl InsufficientData \<longleftrightarrow> length L < 2"
    using statistics_stdev_error[of L InsufficientData] by (auto simp: stdev_def)
  have 2: "variance L = Inl InsufficientData \<longleftrightarrow> length L < 2"
    using statistics_variance_error[of L InsufficientData] by (auto simp: variance_def)
  have 3: "mean L = Inl EmptyInput \<longleftrightarrow> L = []"
    using statistics_mean_error[of L EmptyInput] by (auto simp: mean_def)
  have 4: "median L = Inl EmptyInput \<longleftrightarrow> L = []"
    using statistics_median_error[of L EmptyInput] by (auto simp: median_def)
  have 5: "stdev (replicate n x) = Inr 0" if "2 \<le> n" "exact_value x = Some r"
    using that by (simp add: stdev_def statistics_stdev_def those_replicate
        exact_variance_replicate to_float_0)
  show ?thesis using 1 2 3 4 5 by blast
qed

theorem statistics_guards_witness:
  "stdev [PFloat 5] = Inl InsufficientData \<and> variance [] = Inl InsufficientData
   \<and> mean [] = Inl EmptyInput \<and> median [] = Inl EmptyInput
   \<and> mean [PNone] \<noteq> Inl EmptyInput
   \<and> (2::nat) \<le> 3 \<and> exact_value (PFloat 7) = Some 7
   \<and> stdev [PFloat 7, PFloat 7, PFloat 7] = Inr 0"
proof -
  have "stdev (replicate 3 (PFloat 7)) = Inr 0"
    using statistics_guards[of "[]" 3 "PFloat 7" 7] by simp
  then have a: "stdev [PFloat 7, PFloat 7, PFloat 7] = Inr 0"
    by (simp add: numeral_3_eq_3)
  have b: "stdev [PFloat 5] = Inl InsufficientData"
    using statistics_guards[of "[PFloat 5]" 3 "PFloat 7" 7] by simp
  have c: "variance [] = Inl InsufficientData" "mean [] = Inl EmptyInput" "median [] = Inl EmptyInput"
    using statistics_guards[of "[]" 3 "PFloat 7" 7] by simp_all
  have d: "mean [PNone] \<noteq> Inl EmptyInput"
    using statistics_guards[of "[PNone]" 3 "PFloat 7" 7] by simp
  show ?thesis using a b c d by simp
qed

section \<open>The default base of \<^verbatim>\<open>log\<close>\<close>

lemma exp_1_lower: "(260412269 / 95800320 :: real) \<le> exp 1"
proof -
  have s: "summable (\<lambda>n. (1::real) ^ n /\<^sub>R fact n)" by (rule summable_exp_generic)
  have "(\<Sum>n<13. (1::real) ^ n /\<^sub>R fact n) \<le> (\<Sum>n. (1::real) ^ n /\<^sub>R fact n)"
    by (rule sum_le_suminf[OF s]) auto
  also have "\<dots> = exp 1" by (simp add: exp_def)
  finally have "(\<Sum>n<13. (1::real) ^ n /\<^sub>R fact n) \<le> exp 1" .
  moreover have "(\<Sum>n<13. (1::real) ^ n /\<^sub>R fact n) = 260412269 / 95800320"
    by (simp add: eval_nat_numeral fact_numeral)
  ultimately show ?thesis by simp
qed

lemma default_base_value: "round53 (2718281828 / 10 ^ 9) = 6121026513834395 / 2 ^ 51"
  by (simp add: round53_eval_lo[where k=51] rne_def)

lemma ln_default_base_upper: "ln (6121026513834395 / 2 ^ 51 :: real) \<le> 1 - 1 / 10 ^ 10"
proof -
  define d :: real where "d = 1 / 10 ^ 10"
  have "1 - d \<le> exp (- d)" using exp_ge_add_one_self[of "- d"] by simp
  then have "(260412269 / 95800320) * (1 - d) \<le> exp 1 * exp (- d)"
    using exp_1_lower by (intro mult_mono) (simp_all add: d_def)
  also have "\<dots> = exp (1 - d)" by (simp add: exp_add[symmetric])
  finally have "(6121026513834395 / 2 ^ 51 :: real) \<le> exp (1 - d)"
    by (simp add: d_def)
  then have "ln (6121026513834395 / 2 ^ 51 :: real) \<le> ln (exp (1 - d))"
    by (intro ln_mono) simp_all
  then have "ln (6121026513834395 / 2 ^ 51 :: real) \<le> 1 - d"
    by (simp only: ln_exp)
  then show ?thesis by (simp add: d_def)
qed

lemma exp_half_upper: "exp (1 / 2 :: real) \<le> 2"
proof -
  have "exp (1 / 2 :: real) * exp (1 / 2) = exp 1" by (simp add: exp_add[symmetric])
  then have "(exp (1 / 2 :: real))\<^sup>2 \<le> 2\<^sup>2" using exp_le by (simp add: power2_eq_square)
  then show ?thesis by (rule power2_le_imp_le) simp
qed

lemma ln_default_base_lower: "1 / 2 \<le> ln (6121026513834395 / 2 ^ 51 :: real)"
proof -
  have "exp (1 / 2 :: real) \<le> 6121026513834395 / 2 ^ 51" using exp_half_upper by simp
  then have "ln (exp (1 / 2 :: real)) \<le> ln (6121026513834395 / 2 ^ 51)"
    by (intro ln_mono) simp_all
  then show ?thesis by (simp only: ln_exp)
qed

lemma round53_below_1:
  assumes "1 / 2 \<le> x" and "x \<le> 1 - 1 / 10 ^ 10"
  shows "round53 x < 1" and "round53 x \<noteq> 0" and "binary64 x = Fin (round53 x)"
proof -
  have "2 ^ 52 \<le> \<bar>x\<bar> * 2 ^ 53" and "\<bar>x\<bar> * 2 ^ 53 < 2 ^ 53" using assms by simp_all
  then have e: "round53 x = of_int (rne (x * 2 ^ 53)) / 2 ^ 53" by (rule round53_eval_lo)
  have "of_int (rne (x * 2 ^ 53)) \<le> x * 2 ^ 53 + 1 / 2" using rne_bounds[of "x * 2 ^ 53"] by linarith
  also have "\<dots> < 2 ^ 53" using assms by simp
  finally show 1: "round53 x < 1" using e by simp
  show "round53 x \<noteq> 0" using assms by (simp add: round53_eq_0_iff)
  have "0 \<le> x * 2 ^ 53" using assms by simp
  then have "- 1 / 2 \<le> (of_int (rne (x * 2 ^ 53)) :: real)"
    using rne_bounds[of "x * 2 ^ 53"] by linarith
  then have "- 1 < (of_int (rne (x * 2 ^ 53)) :: real)" by linarith
  then have "- 1 < rne (x * 2 ^ 53)" by linarith
  then have "(0::real) \<le> of_int (rne (x * 2 ^ 53))" by simp
  then have 0: "0 \<le> round53 x" using e by simp
  have "(1::real) \<le> 2 ^ 1024" by (rule one_le_power) simp
  then have r: "\<bar>round53 x\<bar> < 2 ^ 1024" using 0 1 by linarith
  have "(1::real) / 2 ^ 1022 \<le> 1 / 2 ^ 1"
    by (intro divide_left_mono power_increasing) simp_all
  then have "(1::real) / 2 ^ 1022 \<le> 1 / 2" by (simp only: power_one_right)
  moreover have "1 / 2 \<le> \<bar>x\<bar>" using assms(1) by linarith
  ultimately have "1 / 2 ^ 1022 \<le> \<bar>x\<bar>" by (rule order_trans)
  then show "binary64 x = Fin (round53 x)" using r by (rule binary64_normal)
qed

text \<open>
  Claim C9 (the code departs from it). The default base is the float nearest to
  \<^verbatim>\<open>2.718281828\<close>, which is not \<open>e\<close>. At \<open>x = 2.718281828\<close>, \<^verbatim>\<open>log(x)\<close> with no
  base divides the logarithm of \<open>x\<close> by itself and returns exactly 1, while the natural
  logarithm of \<open>x\<close> is less than 1, and so is the float nearest to it.
\<close>

theorem log_default_not_natural:
  "as_number log_default_base = Inr (Fin (6121026513834395 / 2 ^ 51))
   \<and> log_tool log_default_base None = Inr (Fin 1)
   \<and> ln (6121026513834395 / 2 ^ 51 :: real) < 1
   \<and> binary64 (ln (6121026513834395 / 2 ^ 51)) = Fin (round53 (ln (6121026513834395 / 2 ^ 51)))
   \<and> round53 (ln (6121026513834395 / 2 ^ 51)) < 1"
proof -
  define b :: real where "b = 6121026513834395 / 2 ^ 51"
  define y where "y = round53 (ln b)"
  have v: "as_number log_default_base = Inr (Fin b)"
    unfolding log_default_base_def default_base_value b_def by simp
  have l: "1 / 2 \<le> ln b" "ln b \<le> 1 - 1 / 10 ^ 10"
    using ln_default_base_lower ln_default_base_upper by (simp_all add: b_def)
  have f: "y < 1" "y \<noteq> 0" "binary64 (ln b) = Fin y"
    using round53_below_1[OF l] by (simp_all add: y_def)
  have b1: "0 < b" "b \<noteq> 1" by (simp_all add: b_def)
  have "m_log (Fin b) = Inr (Fin y)" using b1 f(3) by simp
  then have "math_log (Fin b) (Fin b) = Inr (Fin 1)"
    using f(2) by (simp add: math_log_def py_truediv_def binary64_1)
  then have "log_tool log_default_base None = Inr (Fin 1)"
    using v b1 by (simp add: log_tool_def)
  moreover have "ln b < 1" using l(2) by simp
  ultimately show ?thesis using v f unfolding y_def b_def by blast
qed

section \<open>Manhattan distance\<close>

lemma map_zip_nth:
  "length xs = length ys \<Longrightarrow>
   map (\<lambda>(a, b). f a b) (zip xs ys) = map (\<lambda>i. f (xs ! i) (ys ! i)) [0..<length xs]"
  by (rule nth_equalityI) simp_all

lemma py_sum_single: "py_sum k [x] = fadd (Fin 0) x"
proof (cases k)
  case Plain_sum
  then show ?thesis by simp
next
  case Compensated_sum
  then show ?thesis by simp
qed

text \<open>
  Claim C7 as stated fails for an empty point list: for the lists \<^verbatim>\<open>[]\<close> and
  \<^verbatim>\<open>[1.0]\<close>, of different lengths, \<^verbatim>\<open>manhattan_distance\<close> fails with
  \<open>EmptyInput\<close>, not with \<open>DimensionMismatch\<close>, on every runtime.
\<close>

theorem manhattan_distance_counterexample:
  "\<forall>R. length ([] :: pyval list) \<noteq> length [PFloat 1]
     \<and> manhattan_distance R [] [PFloat 1] = Inl EmptyInput
     \<and> manhattan_distance R [] [PFloat 1] \<noteq> Inl DimensionMismatch"
  by (simp add: manhattan_distance_def as_list_def)

text \<open>
  Claim C7, amended. For every pair of non-empty lists of valid numbers \<open>p1\<close>, \<open>p2\<close>
  (the normaliser returns \<open>a\<close> and \<open>b\<close>): \<^verbatim>\<open>manhattan_distance(p1, p2)\<close> fails with
  \<open>DimensionMismatch\<close> when the lists have different lengths, and otherwise returns
  \<^verbatim>\<open>sum\<close>, as the runtime computes it, of the floats \<open>|p1_i - p2_i|\<close> over all
  coordinates \<open>i\<close>, each difference rounded to a float or to an infinity. When \<open>p1\<close> is
  empty, or \<open>p1\<close> is valid and \<open>p2\<close> is empty, it fails with \<open>EmptyInput\<close>; an error
  of the normaliser on \<open>p1\<close>, or on \<open>p2\<close> when \<open>p1\<close> is valid, is the error of the tool.
\<close>

theorem manhattan_distance_spec:
  "(as_list p1 = Inr a \<and> as_list p2 = Inr b \<and> length p1 \<noteq> length p2 \<longrightarrow>
      manhattan_distance R p1 p2 = Inl DimensionMismatch)
   \<and> (as_list p1 = Inr a \<and> as_list p2 = Inr b \<and> length p1 = length p2 \<longrightarrow>
      manhattan_distance R p1 p2 =
        Inr (py_sum (sum_kind R) (map (\<lambda>i. fabs (fsub (a ! i) (b ! i))) [0..<length p1])))
   \<and> (p1 = [] \<longrightarrow> manhattan_distance R p1 p2 = Inl EmptyInput)
   \<and> (as_list p1 = Inr a \<and> p2 = [] \<longrightarrow> manhattan_distance R p1 p2 = Inl EmptyInput)
   \<and> (as_list p1 = Inl e \<longrightarrow> manhattan_distance R p1 p2 = Inl e)
   \<and> (as_list p1 = Inr a \<and> as_list p2 = Inl e \<longrightarrow> manhattan_distance R p1 p2 = Inl e)"
proof -
  have len: "length a = length p1 \<and> length b = length p2"
    if "as_list p1 = Inr a" "as_list p2 = Inr b"
    using that by (auto simp: as_list_Inr dest: as_numbers_length)
  have 1: "manhattan_distance R p1 p2 = Inl DimensionMismatch"
    if "as_list p1 = Inr a" "as_list p2 = Inr b" "length p1 \<noteq> length p2"
    using that len by (simp add: manhattan_distance_def)
  have 2: "manhattan_distance R p1 p2 =
        Inr (py_sum (sum_kind R) (map (\<lambda>i. fabs (fsub (a ! i) (b ! i))) [0..<length p1]))"
    if h: "as_list p1 = Inr a" "as_list p2 = Inr b" "length p1 = length p2"
  proof -
    have l: "length a = length b" "length a = length p1" using len h by simp_all
    show ?thesis
      using h l map_zip_nth[OF l(1), of "\<lambda>x y. fabs (fsub x y)"]
      by (simp add: manhattan_distance_def)
  qed
  have 3: "manhattan_distance R p1 p2 = Inl EmptyInput" if "p1 = []"
    using that by (simp add: manhattan_distance_def as_list_def)
  have 4: "manhattan_distance R p1 p2 = Inl EmptyInput" if "as_list p1 = Inr a" "p2 = []"
    using that by (simp add: manhattan_distance_def as_list_def)
  have 5: "manhattan_distance R p1 p2 = Inl e" if "as_list p1 = Inl e"
    using that by (simp add: manhattan_distance_def)
  have 6: "manhattan_distance R p1 p2 = Inl e" if "as_list p1 = Inr a" "as_list p2 = Inl e"
    using that by (simp add: manhattan_distance_def)
  show ?thesis using 1 2 3 4 5 6 by blast
qed

theorem manhattan_distance_spec_witness:
  "\<forall>R. as_list [PInt 1, PInt 5] = Inr [Fin 1, Fin 5]
     \<and> as_list [PInt 4, PInt 1] = Inr [Fin 4, Fin 1]
     \<and> length [PInt 1, PInt 5] = length [PInt 4, PInt 1]
     \<and> manhattan_distance R [PInt 1, PInt 5] [PInt 4, PInt 1] = Inr (Fin 7)
     \<and> as_list [PInt 4] = Inr [Fin 4] \<and> length [PInt 1, PInt 5] \<noteq> length [PInt 4]
     \<and> manhattan_distance R [PInt 1, PInt 5] [PInt 4] = Inl DimensionMismatch
     \<and> manhattan_distance R [] [PInt 4] = Inl EmptyInput
     \<and> manhattan_distance R [PInt 4] [] = Inl EmptyInput
     \<and> as_list [PNone] = Inl (InvalidNumber PNone)
     \<and> manhattan_distance R [PNone] [] = Inl (InvalidNumber PNone)
     \<and> as_list [PFloat (2 ^ 1023)] = Inr [Fin (2 ^ 1023)]
     \<and> as_list [PFloat (- (2 ^ 1023))] = Inr [Fin (- (2 ^ 1023))]
     \<and> manhattan_distance R [PFloat (2 ^ 1023)] [PFloat (- (2 ^ 1023))] = Inr PosInf"
proof
  fix R
  have h1: "as_list [PInt 1, PInt 5] = Inr [Fin 1, Fin 5]"
    by (simp add: as_list_def small_ints)
  have h2: "as_list [PInt 4, PInt 1] = Inr [Fin 4, Fin 1]"
    by (simp add: as_list_def small_ints)
  have h3: "as_list [PInt 4] = Inr [Fin 4]"
    by (simp add: as_list_def small_ints)
  have h4: "as_list [PNone] = Inl (InvalidNumber PNone)"
    by (simp add: as_list_def)
  have h5: "as_list [PFloat (2 ^ 1023)] = Inr [Fin (2 ^ 1023)]"
    by (simp add: as_list_def)
  have h6: "as_list [PFloat (- (2 ^ 1023))] = Inr [Fin (- (2 ^ 1023))]"
    by (simp add: as_list_def)
  have u: "[0..<2] = [0, 1]" by (simp add: upt_rec)
  have s: "py_sum k [Fin 3, Fin 4] = Fin 7" for k
    by (cases k) (simp_all add: small_ints fsub_def)
  have a: "manhattan_distance R [PInt 1, PInt 5] [PInt 4, PInt 1] = Inr (Fin 7)"
    using manhattan_distance_spec[of "[PInt 1, PInt 5]" "[Fin 1, Fin 5]" "[PInt 4, PInt 1]"
        "[Fin 4, Fin 1]" R EmptyInput, THEN conjunct2, THEN conjunct1] h1 h2
    by (simp add: u s fsub_def small_ints)
  have b: "manhattan_distance R [PInt 1, PInt 5] [PInt 4] = Inl DimensionMismatch"
    using manhattan_distance_spec[of "[PInt 1, PInt 5]" "[Fin 1, Fin 5]" "[PInt 4]" "[Fin 4]"
        R EmptyInput, THEN conjunct1] h1 h3 by simp
  have c: "manhattan_distance R [] [PInt 4] = Inl EmptyInput"
    using manhattan_distance_spec[of "[]" "[]" "[PInt 4]" "[Fin 4]" R EmptyInput,
        THEN conjunct2, THEN conjunct2, THEN conjunct1] by simp
  have d: "manhattan_distance R [PInt 4] [] = Inl EmptyInput"
    using manhattan_distance_spec[of "[PInt 4]" "[Fin 4]" "[]" "[]" R EmptyInput,
        THEN conjunct2, THEN conjunct2, THEN conjunct2, THEN conjunct1] h3 by simp
  have e: "manhattan_distance R [PNone] [] = Inl (InvalidNumber PNone)"
    using manhattan_distance_spec[of "[PNone]" "[]" "[]" "[]" R "InvalidNumber PNone",
        THEN conjunct2, THEN conjunct2, THEN conjunct2, THEN conjunct2, THEN conjunct1] h4
    by simp
  have "(2::real) ^ 1023 + 2 ^ 1023 = 2 ^ 1024" by simp
  moreover have "binary64 (2 ^ 1024) = PosInf"
    using binary64_overflow[of "2 ^ 1024"] by simp
  ultimately have o: "fsub (Fin (2 ^ 1023)) (Fin (- (2 ^ 1023))) = PosInf"
    unfolding fsub_def by (simp only: fneg.simps fadd.simps minus_minus)
  have "manhattan_distance R [PFloat (2 ^ 1023)] [PFloat (- (2 ^ 1023))]
      = Inr (py_sum (sum_kind R) (map (\<lambda>i. fabs (fsub ([Fin (2 ^ 1023)] ! i)
          ([Fin (- (2 ^ 1023))] ! i))) [0..<length [PFloat (2 ^ 1023)]]))"
    using manhattan_distance_spec[of "[PFloat (2 ^ 1023)]" "[Fin (2 ^ 1023)]"
        "[PFloat (- (2 ^ 1023))]" "[Fin (- (2 ^ 1023))]" R EmptyInput,
        THEN conjunct2, THEN conjunct1] h5 h6 by simp
  also have "\<dots> = Inr (py_sum (sum_kind R) [PosInf])"
    using o by (simp del: power_numeral)
  also have "\<dots> = Inr PosInf"
    by (simp add: py_sum_single)
  finally have f: "manhattan_distance R [PFloat (2 ^ 1023)] [PFloat (- (2 ^ 1023))] = Inr PosInf" .
  show "as_list [PInt 1, PInt 5] = Inr [Fin 1, Fin 5]
     \<and> as_list [PInt 4, PInt 1] = Inr [Fin 4, Fin 1]
     \<and> length [PInt 1, PInt 5] = length [PInt 4, PInt 1]
     \<and> manhattan_distance R [PInt 1, PInt 5] [PInt 4, PInt 1] = Inr (Fin 7)
     \<and> as_list [PInt 4] = Inr [Fin 4] \<and> length [PInt 1, PInt 5] \<noteq> length [PInt 4]
     \<and> manhattan_distance R [PInt 1, PInt 5] [PInt 4] = Inl DimensionMismatch
     \<and> manhattan_distance R [] [PInt 4] = Inl EmptyInput
     \<and> manhattan_distance R [PInt 4] [] = Inl EmptyInput
     \<and> as_list [PNone] = Inl (InvalidNumber PNone)
     \<and> manhattan_distance R [PNone] [] = Inl (InvalidNumber PNone)
     \<and> as_list [PFloat (2 ^ 1023)] = Inr [Fin (2 ^ 1023)]
     \<and> as_list [PFloat (- (2 ^ 1023))] = Inr [Fin (- (2 ^ 1023))]
     \<and> manhattan_distance R [PFloat (2 ^ 1023)] [PFloat (- (2 ^ 1023))] = Inr PosInf"
    using h1 h2 h3 h4 h5 h6 a b c d e f by (simp only: simp_thms list.size)
qed

section \<open>Sums and products\<close>

lemma round53_pow2: "round53 (2 ^ k) = 2 ^ k"
proof -
  have p: "(2::real) powr of_int (int k) = 2 ^ k"
    using powr_realpow[of 2 k] by simp
  have "(2::real) powr (of_int (int k) + 1) = 2 powr of_int (int k) * 2 powr 1"
    by (rule powr_add)
  then have q: "(2::real) powr (of_int (int k) + 1) = 2 ^ k * 2" using p by simp
  have "expo (2 ^ k) = int k"
    by (rule expo_unique) (simp_all only: p q, simp_all)
  then have u: "ulp (2 ^ k) = 2 powr (of_int (int k) - 52)" by (simp add: ulp_def)
  have "(2::real) powr of_int (int k) = 2 powr (of_int (int k) - 52 + 52)" by simp
  also have "\<dots> = 2 powr (of_int (int k) - 52) * 2 powr 52" by (rule powr_add)
  finally have "(2::real) ^ k = ulp (2 ^ k) * 2 powr 52" using p u by simp
  moreover have "(2::real) powr 52 = 2 ^ 52" using powr_realpow[of 2 52] by simp
  ultimately have "(2::real) ^ k = ulp (2 ^ k) * of_int (2 ^ 52)" by simp
  then have "(2::real) ^ k / ulp (2 ^ k) = of_int (2 ^ 52)"
    using ulp_pos[of "2 ^ k"] by (simp add: field_simps)
  then show ?thesis by (rule round53_exact)
qed

lemma binary64_pow2:
  assumes "k \<le> 1023"
  shows "binary64 (2 ^ k) = Fin (2 ^ k)"
proof -
  have "(2::real) ^ k < 2 ^ 1024" using assms by (intro power_strict_increasing) simp_all
  moreover have "\<bar>(2::real) ^ k\<bar> = 2 ^ k" by (rule abs_of_nonneg) simp
  ultimately have a: "\<bar>round53 (2 ^ k)\<bar> < 2 ^ 1024" by (simp only: round53_pow2)
  have e: "\<bar>(2::real) ^ k\<bar> = 2 ^ k" by (rule abs_of_nonneg) simp
  have "(1::real) \<le> 2 ^ 1022" by (rule one_le_power) simp
  then have "(1::real) / 2 ^ 1022 \<le> 1" by (simp only: divide_le_eq_1_pos zero_less_power zero_less_numeral)
  moreover have "(1::real) \<le> 2 ^ k" by (rule one_le_power) simp
  ultimately have "(1::real) / 2 ^ 1022 \<le> 2 ^ k" by (rule order_trans)
  then have "(1::real) / 2 ^ 1022 \<le> \<bar>2 ^ k\<bar>" by (simp only: e)
  then have "binary64 (2 ^ k) = Fin (round53 (2 ^ k))" using a by (rule binary64_normal)
  then show ?thesis by (simp only: round53_pow2)
qed

lemma foldl_fadd_exact:
  "\<forall>x \<in> set xs. x \<in> \<int> \<Longrightarrow> acc \<in> \<int> \<Longrightarrow> \<bar>acc\<bar> + sum_list (map abs xs) \<le> 2 ^ 53
   \<Longrightarrow> foldl fadd (Fin acc) (map Fin xs) = Fin (acc + sum_list xs)"
proof (induction xs arbitrary: acc)
  case Nil
  then show ?case by simp
next
  case (Cons x xs)
  have nn: "0 \<le> sum_list (map abs xs)" by (rule sum_list_nonneg) auto
  have i: "acc + x \<in> \<int>" using Cons.prems by simp
  have b: "\<bar>acc + x\<bar> + sum_list (map abs xs) \<le> 2 ^ 53" using Cons.prems(3) by simp
  then have "\<bar>acc + x\<bar> \<le> 2 ^ 53" using nn by linarith
  then have s: "fadd (Fin acc) (Fin x) = Fin (acc + x)"
    using i by (simp only: fadd.simps binary64_Ints)
  have "foldl fadd (Fin (acc + x)) (map Fin xs) = Fin (acc + x + sum_list xs)"
    using Cons.prems(1) i b by (intro Cons.IH) simp_all
  then show ?case by (simp add: s del: fadd.simps)
qed

lemma neumaier_exact:
  "\<forall>x \<in> set xs. x \<in> \<int> \<Longrightarrow> acc \<in> \<int> \<Longrightarrow> \<bar>acc\<bar> + sum_list (map abs xs) \<le> 2 ^ 53
   \<Longrightarrow> neumaier (Fin acc) (Fin 0) (map Fin xs) = Fin (acc + sum_list xs)"
proof (induction xs arbitrary: acc)
  case Nil
  then show ?case by simp
next
  case (Cons x xs)
  have nn: "0 \<le> sum_list (map abs xs)" by (rule sum_list_nonneg) auto
  have i: "acc + x \<in> \<int>" using Cons.prems by simp
  have b: "\<bar>acc + x\<bar> + sum_list (map abs xs) \<le> 2 ^ 53" using Cons.prems(3) by simp
  then have "\<bar>acc + x\<bar> \<le> 2 ^ 53" using nn by linarith
  then have s: "fadd (Fin acc) (Fin x) = Fin (acc + x)"
    using i by (simp only: fadd.simps binary64_Ints)
  have xb: "x \<in> \<int>" "acc \<in> \<int>" using Cons.prems by simp_all
  have "\<bar>acc\<bar> + (\<bar>x\<bar> + sum_list (map abs xs)) \<le> 2 ^ 53" using Cons.prems(3) by simp
  then have xc: "\<bar>x\<bar> \<le> 2 ^ 53" "\<bar>acc\<bar> \<le> 2 ^ 53" using nn by linarith+
  have "binary64 (acc - (acc + x)) = Fin (- x)"
    using binary64_Ints[of "- x"] xb xc by simp
  then have c1: "fadd (fsub (Fin acc) (Fin (acc + x))) (Fin x) = Fin 0"
    by (simp add: fsub_def binary64_0)
  have "binary64 (x - (acc + x)) = Fin (- acc)"
    using binary64_Ints[of "- acc"] xb xc by simp
  then have c2: "fadd (fsub (Fin x) (Fin (acc + x))) (Fin acc) = Fin 0"
    by (simp add: fsub_def binary64_0)
  have z: "fadd (Fin 0) (Fin 0) = Fin 0" by (simp add: binary64_0)
  have "neumaier (Fin (acc + x)) (Fin 0) (map Fin xs) = Fin (acc + x + sum_list xs)"
    using Cons.prems(1) i b by (intro Cons.IH) simp_all
  then show ?case
    by (simp add: s c1 c2 z Let_def del: fadd.simps)
qed

lemma py_sum_exact:
  assumes "\<forall>x \<in> set xs. x \<in> \<int>" and "sum_list (map abs xs) \<le> 2 ^ 53"
  shows "py_sum k (map Fin xs) = Fin (sum_list xs)"
proof (cases k)
  case Plain_sum
  then show ?thesis using foldl_fadd_exact[of xs 0] assms by simp
next
  case Compensated_sum
  show ?thesis
  proof (cases xs)
    case Nil
    then show ?thesis using Compensated_sum by simp
  next
    case (Cons y ys)
    have nn: "0 \<le> sum_list (map abs ys)" by (rule sum_list_nonneg) auto
    have y1: "y \<in> \<int>" using assms Cons by simp
    have "\<bar>y\<bar> + sum_list (map abs ys) \<le> 2 ^ 53" using assms(2) Cons by simp
    then have y2: "\<bar>y\<bar> \<le> 2 ^ 53" using nn by linarith
    note y = y1 y2
    then have "fadd (Fin 0) (Fin y) = Fin y" using binary64_Ints[of y] by simp
    moreover have "neumaier (Fin y) (Fin 0) (map Fin ys) = Fin (y + sum_list ys)"
      using assms Cons y by (intro neumaier_exact) simp_all
    ultimately show ?thesis using Compensated_sum Cons by (simp del: fadd.simps)
  qed
qed

lemma prod_list_max_ge_1: "1 \<le> prod_list (map (\<lambda>x. max 1 \<bar>x\<bar>) (xs :: real list))"
proof (induction xs)
  case Nil
  then show ?case by simp
next
  case (Cons x xs)
  have "1 * 1 \<le> max 1 \<bar>x\<bar> * prod_list (map (\<lambda>x. max 1 \<bar>x\<bar>) xs)"
    using Cons.IH by (intro mult_mono) simp_all
  then show ?case by simp
qed

lemma foldl_fmul_exact:
  "\<forall>x \<in> set xs. x \<in> \<int> \<Longrightarrow> acc \<in> \<int> \<Longrightarrow>
   \<bar>acc\<bar> * prod_list (map (\<lambda>x. max 1 \<bar>x\<bar>) xs) \<le> 2 ^ 53
   \<Longrightarrow> foldl fmul (Fin acc) (map Fin xs) = Fin (acc * prod_list xs)"
proof (induction xs arbitrary: acc)
  case Nil
  then show ?case by simp
next
  case (Cons x xs)
  define P where "P = prod_list (map (\<lambda>x. max 1 \<bar>x\<bar>) xs)"
  have P1: "1 \<le> P" unfolding P_def by (rule prod_list_max_ge_1)
  have i: "acc * x \<in> \<int>" using Cons.prems by simp
  have "\<bar>acc * x\<bar> * P = \<bar>acc\<bar> * (\<bar>x\<bar> * P)" by (simp add: abs_mult)
  also have "\<dots> \<le> \<bar>acc\<bar> * (max 1 \<bar>x\<bar> * P)"
    using P1 by (intro mult_left_mono mult_right_mono) simp_all
  also have "\<dots> \<le> 2 ^ 53" using Cons.prems(3) by (simp add: P_def)
  finally have b: "\<bar>acc * x\<bar> * P \<le> 2 ^ 53" .
  have "\<bar>acc * x\<bar> * 1 \<le> \<bar>acc * x\<bar> * P" using P1 by (intro mult_left_mono) simp_all
  then have "\<bar>acc * x\<bar> \<le> 2 ^ 53" using b by simp
  then have s: "fmul (Fin acc) (Fin x) = Fin (acc * x)"
    using i by (simp only: fmul.simps binary64_Ints)
  have "foldl fmul (Fin (acc * x)) (map Fin xs) = Fin (acc * x * prod_list xs)"
    using Cons.prems(1) i b by (intro Cons.IH) (simp_all add: P_def)
  then show ?case by (simp add: s del: fmul.simps)
qed

lemma as_numbers_map:
  "as_numbers L = Inr nums \<longleftrightarrow>
   (\<forall>x \<in> set L. \<not> isl (as_number x)) \<and> nums = map (\<lambda>x. projr (as_number x)) L"
proof (induction L arbitrary: nums)
  case Nil
  then show ?case by auto
next
  case (Cons x L)
  show ?case
  proof (cases "as_number x")
    case (Inl e)
    then show ?thesis by simp
  next
    case (Inr v)
    show ?thesis
    proof (cases "as_numbers L")
      case (Inl e)
      then show ?thesis using Inr Cons.IH by auto
    next
      case r: (Inr vs)
      then show ?thesis using Inr Cons.IH[of vs] by auto
    qed
  qed
qed

lemma as_list_permutation:
  assumes "as_list L = Inr nums" and "mset L' = mset L"
  shows "\<exists>nums'. as_list L' = Inr nums' \<and> mset nums' = mset nums"
proof -
  define f where "f = (\<lambda>x. projr (as_number x))"
  from assms(1) have ne: "L \<noteq> []" and ok: "\<forall>x \<in> set L. \<not> isl (as_number x)"
    and n: "nums = map f L"
    by (simp_all add: as_list_Inr as_numbers_map f_def)
  have ne': "L' \<noteq> []" using assms(2) ne by auto
  have "set L' = set L" using assms(2) by (rule mset_eq_setD)
  then have "as_numbers L' = Inr (map f L')" using ok by (simp add: as_numbers_map f_def)
  then have "as_list L' = Inr (map f L')" using ne' by (simp add: as_list_def)
  moreover have "mset (map f L') = mset nums" using assms(2) n by simp
  ultimately show ?thesis by blast
qed

lemma sum_list_permutation: "mset xs = mset ys \<Longrightarrow> sum_list xs = sum_list (ys :: real list)"
  by (metis sum_mset_sum_list)

lemma prod_list_permutation: "mset xs = mset ys \<Longrightarrow> prod_list xs = prod_list (ys :: real list)"
  by (metis prod_mset_prod_list)


lemma map_Fin_permutation:
  assumes "mset nums' = mset (map Fin xs)"
  shows "\<exists>xs'. nums' = map Fin xs' \<and> mset xs' = mset xs"
proof -
  define g where "g = (\<lambda>f. case f of Fin x \<Rightarrow> x | Infinity s \<Rightarrow> 0 | NaN \<Rightarrow> 0)"
  have gf: "g (Fin x) = x" for x by (simp add: g_def)
  have "set nums' = set (map Fin xs)" using assms by (rule mset_eq_setD)
  then have "\<forall>f \<in> set nums'. Fin (g f) = f" using gf by auto
  then have 1: "map Fin (map g nums') = nums'" by (simp add: map_idI)
  have "mset (map g nums') = image_mset g (mset (map Fin xs))" using assms by simp
  also have "\<dots> = mset xs" by (simp add: image_mset.compositionality comp_def gf)
  finally have "mset (map g nums') = mset xs" .
  then show ?thesis using 1 by metis
qed

lemma add_exact:
  assumes "as_list L = Inr (map Fin xs)" and "\<forall>x \<in> set xs. x \<in> \<int>"
    and "sum_list (map abs xs) \<le> 2 ^ 53"
  shows "add R L = Inr (Fin (sum_list xs))"
  using assms py_sum_exact[of xs "sum_kind R"] by (simp add: add_def)

lemma multiply_exact:
  assumes "as_list L = Inr (map Fin xs)" and "\<forall>x \<in> set xs. x \<in> \<int>"
    and "prod_list (map (\<lambda>x. max 1 \<bar>x\<bar>) xs) \<le> 2 ^ 53"
  shows "multiply L = Inr (Fin (prod_list xs))"
  using assms foldl_fmul_exact[of xs 1] by (simp add: multiply_def)


text \<open>
  Claim C4 as stated fails, for both tools. Float multiplication rounds after every step,
  so the product depends on the order of the factors: the lists \<^verbatim>\<open>[2**50 + 1, 9, 3]\<close>
  and \<^verbatim>\<open>[9, 3, 2**50 + 1]\<close> are permutations of each other, their product is
  30399297484750875, and \<^verbatim>\<open>multiply\<close> returns 30399297484750872.0 on the first and
  30399297484750876.0 on the second. Float addition overflows: with \<open>A = 2\<^sup>1\<^sup>0\<^sup>2\<^sup>3\<close>,
  \<^verbatim>\<open>add([A, A, -A])\<close> is infinite and \<^verbatim>\<open>add([A, -A, A])\<close> is \<open>A\<close>, with either
  algorithm of \<^verbatim>\<open>sum\<close>. And the plain left-to-right \<^verbatim>\<open>sum\<close> rounds:
  \<^verbatim>\<open>add([2**53, 1, -2**53])\<close> is 0.0 and \<^verbatim>\<open>add([2**53, -2**53, 1])\<close> is 1.0.
\<close>

theorem add_multiply_counterexample:
  "\<forall>R. mset [PInt 1125899906842625, PInt 9, PInt 3] = mset [PInt 9, PInt 3, PInt 1125899906842625]
     \<and> (1125899906842625 * 9 * 3 :: real) = 30399297484750875
     \<and> multiply [PInt 1125899906842625, PInt 9, PInt 3] = Inr (Fin 30399297484750872)
     \<and> multiply [PInt 9, PInt 3, PInt 1125899906842625] = Inr (Fin 30399297484750876)
     \<and> multiply [PInt 1125899906842625, PInt 9, PInt 3]
         \<noteq> multiply [PInt 9, PInt 3, PInt 1125899906842625]
     \<and> mset [PFloat (2 ^ 1023), PFloat (2 ^ 1023), PFloat (- (2 ^ 1023))]
         = mset [PFloat (2 ^ 1023), PFloat (- (2 ^ 1023)), PFloat (2 ^ 1023)]
     \<and> add R [PFloat (2 ^ 1023), PFloat (2 ^ 1023), PFloat (- (2 ^ 1023))] = Inr PosInf
     \<and> add R [PFloat (2 ^ 1023), PFloat (- (2 ^ 1023)), PFloat (2 ^ 1023)] = Inr (Fin (2 ^ 1023))
     \<and> add R [PFloat (2 ^ 1023), PFloat (2 ^ 1023), PFloat (- (2 ^ 1023))]
         \<noteq> add R [PFloat (2 ^ 1023), PFloat (- (2 ^ 1023)), PFloat (2 ^ 1023)]
     \<and> mset [PInt 9007199254740992, PInt 1, PInt (- 9007199254740992)]
         = mset [PInt 9007199254740992, PInt (- 9007199254740992), PInt 1]
     \<and> add (R\<lparr>sum_kind := Plain_sum\<rparr>) [PInt 9007199254740992, PInt 1, PInt (- 9007199254740992)]
         = Inr (Fin 0)
     \<and> add (R\<lparr>sum_kind := Plain_sum\<rparr>) [PInt 9007199254740992, PInt (- 9007199254740992), PInt 1]
         = Inr (Fin 1)"
proof
  fix R
  have r1: "round53 10133099161583625 = 10133099161583624"
    by (simp add: round53_eval_hi[where k=1] rne_def)
  have r2: "round53 30399297484750872 = 30399297484750872"
    by (simp add: round53_eval_hi[where k=2] rne_def)
  have r3: "round53 30399297484750875 = 30399297484750876"
    by (simp add: round53_eval_hi[where k=2] rne_def)
  have r4: "round53 9007199254740993 = 9007199254740992"
    by (simp add: round53_eval_hi[where k=1] rne_def)
  have b1: "binary64 10133099161583625 = Fin 10133099161583624"
    using binary64_normal[of 10133099161583625] r1 by simp
  have b2: "binary64 30399297484750872 = Fin 30399297484750872"
    using binary64_normal[of 30399297484750872] r2 by simp
  have b3: "binary64 30399297484750875 = Fin 30399297484750876"
    using binary64_normal[of 30399297484750875] r3 by simp
  have b4: "binary64 9007199254740993 = Fin 9007199254740992"
    using binary64_normal[of 9007199254740993] r4 by simp
  have l1: "as_list [PInt 1125899906842625, PInt 9, PInt 3]
      = Inr [Fin 1125899906842625, Fin 9, Fin 3]"
    by (simp add: as_list_def small_ints)
  have l2: "as_list [PInt 9, PInt 3, PInt 1125899906842625]
      = Inr [Fin 9, Fin 3, Fin 1125899906842625]"
    by (simp add: as_list_def small_ints)
  have m1: "multiply [PInt 1125899906842625, PInt 9, PInt 3] = Inr (Fin 30399297484750872)"
    by (simp add: multiply_def l1 small_ints b1 b2)
  have m2: "multiply [PInt 9, PInt 3, PInt 1125899906842625] = Inr (Fin 30399297484750876)"
    by (simp add: multiply_def l2 small_ints b3)
  have m3: "multiply [PInt 1125899906842625, PInt 9, PInt 3]
         \<noteq> multiply [PInt 9, PInt 3, PInt 1125899906842625]"
    unfolding m1 m2 by simp
  have p1: "mset [PInt 1125899906842625, PInt 9, PInt 3]
      = mset [PInt 9, PInt 3, PInt 1125899906842625]"
    by (simp add: add_mset_commute)
  have e1: "(1125899906842625 * 9 * 3 :: real) = 30399297484750875" by simp
  define A :: real where "A = 2 ^ 1023"
  have A0: "0 < A" by (simp add: A_def)
  have bA: "binary64 A = Fin A" unfolding A_def by (rule binary64_pow2) simp
  have "A + A = 2 ^ 1024" by (simp add: A_def)
  moreover have "binary64 (2 ^ 1024) = PosInf"
    using binary64_overflow[of "2 ^ 1024"] by simp
  ultimately have "binary64 (A + A) = PosInf" by (simp only:)
  then have bAA: "binary64 (2 * A) = PosInf" by simp
  have s1: "py_sum k [Fin A, Fin A, Fin (- A)] = PosInf" for k
    using A0 by (cases k) (simp_all add: bA bAA binary64_0 fsub_def Let_def)
  have s2: "py_sum k [Fin A, Fin (- A), Fin A] = Fin A" for k
    using A0 by (cases k) (simp_all add: bA bAA binary64_0 fsub_def Let_def)
  have a1: "add R [PFloat A, PFloat A, PFloat (- A)] = Inr PosInf"
    by (simp add: add_def as_list_def s1 del: py_sum.simps)
  have a2: "add R [PFloat A, PFloat (- A), PFloat A] = Inr (Fin A)"
    by (simp add: add_def as_list_def s2 del: py_sum.simps)
  have a3: "add R [PFloat A, PFloat A, PFloat (- A)] \<noteq> add R [PFloat A, PFloat (- A), PFloat A]"
    unfolding a1 a2 by simp
  have p2: "mset [PFloat A, PFloat A, PFloat (- A)] = mset [PFloat A, PFloat (- A), PFloat A]"
    by (simp add: add_mset_commute)
  have p3: "mset [PInt 9007199254740992, PInt 1, PInt (- 9007199254740992)]
         = mset [PInt 9007199254740992, PInt (- 9007199254740992), PInt 1]"
    by (simp add: add_mset_commute)
  have a4: "add (R\<lparr>sum_kind := Plain_sum\<rparr>)
      [PInt 9007199254740992, PInt 1, PInt (- 9007199254740992)] = Inr (Fin 0)"
    by (simp add: add_def as_list_def small_ints b4)
  have a5: "add (R\<lparr>sum_kind := Plain_sum\<rparr>)
      [PInt 9007199254740992, PInt (- 9007199254740992), PInt 1] = Inr (Fin 1)"
    by (simp add: add_def as_list_def small_ints)
  note f = p1 e1 m1 m2 m3 p2[unfolded A_def] a1[unfolded A_def] a2[unfolded A_def]
    a3[unfolded A_def] p3 a4 a5
  show "mset [PInt 1125899906842625, PInt 9, PInt 3] = mset [PInt 9, PInt 3, PInt 1125899906842625]
     \<and> (1125899906842625 * 9 * 3 :: real) = 30399297484750875
     \<and> multiply [PInt 1125899906842625, PInt 9, PInt 3] = Inr (Fin 30399297484750872)
     \<and> multiply [PInt 9, PInt 3, PInt 1125899906842625] = Inr (Fin 30399297484750876)
     \<and> multiply [PInt 1125899906842625, PInt 9, PInt 3]
         \<noteq> multiply [PInt 9, PInt 3, PInt 1125899906842625]
     \<and> mset [PFloat (2 ^ 1023), PFloat (2 ^ 1023), PFloat (- (2 ^ 1023))]
         = mset [PFloat (2 ^ 1023), PFloat (- (2 ^ 1023)), PFloat (2 ^ 1023)]
     \<and> add R [PFloat (2 ^ 1023), PFloat (2 ^ 1023), PFloat (- (2 ^ 1023))] = Inr PosInf
     \<and> add R [PFloat (2 ^ 1023), PFloat (- (2 ^ 1023)), PFloat (2 ^ 1023)] = Inr (Fin (2 ^ 1023))
     \<and> add R [PFloat (2 ^ 1023), PFloat (2 ^ 1023), PFloat (- (2 ^ 1023))]
         \<noteq> add R [PFloat (2 ^ 1023), PFloat (- (2 ^ 1023)), PFloat (2 ^ 1023)]
     \<and> mset [PInt 9007199254740992, PInt 1, PInt (- 9007199254740992)]
         = mset [PInt 9007199254740992, PInt (- 9007199254740992), PInt 1]
     \<and> add (R\<lparr>sum_kind := Plain_sum\<rparr>) [PInt 9007199254740992, PInt 1, PInt (- 9007199254740992)]
         = Inr (Fin 0)
     \<and> add (R\<lparr>sum_kind := Plain_sum\<rparr>) [PInt 9007199254740992, PInt (- 9007199254740992), PInt 1]
         = Inr (Fin 1)"
    by (intro conjI f)
qed

text \<open>
  Claim C4, amended. For every non-empty list \<open>L\<close> of valid numbers (the normaliser
  returns the floats \<open>nums\<close>), \<^verbatim>\<open>add(L)\<close> is \<^verbatim>\<open>sum\<close> of \<open>nums\<close> as the runtime
  computes it (left to right in float arithmetic, compensated or not) and
  \<^verbatim>\<open>multiply(L)\<close> is the product of \<open>nums\<close> taken from left to right in float
  arithmetic, from 1.0. When the floats are the integers \<open>xs\<close> and the sum of their
  absolute values (for \<^verbatim>\<open>add\<close>), or the product of their absolute values with every zero
  counted as one (for \<^verbatim>\<open>multiply\<close>), is at most \<open>2\<^sup>5\<^sup>3\<close>, no step rounds: the result is
  the exact sum or product of the elements and is unchanged under every permutation of
  \<open>L\<close>.
\<close>

theorem add_multiply_spec:
  assumes "as_list L = Inr nums"
  shows "add R L = Inr (py_sum (sum_kind R) nums) \<and> multiply L = Inr (foldl fmul (Fin 1) nums)
    \<and> (nums = map Fin xs \<and> (\<forall>x \<in> set xs. x \<in> \<int>) \<and> sum_list (map abs xs) \<le> 2 ^ 53 \<longrightarrow>
          add R L = Inr (Fin (sum_list xs)) \<and> (\<forall>L'. mset L' = mset L \<longrightarrow> add R L' = add R L))
    \<and> (nums = map Fin xs \<and> (\<forall>x \<in> set xs. x \<in> \<int>)
          \<and> prod_list (map (\<lambda>x. max 1 \<bar>x\<bar>) xs) \<le> 2 ^ 53 \<longrightarrow>
          multiply L = Inr (Fin (prod_list xs))
          \<and> (\<forall>L'. mset L' = mset L \<longrightarrow> multiply L' = multiply L))"
proof -
  have folds: "add R L = Inr (py_sum (sum_kind R) nums)"
    "multiply L = Inr (foldl fmul (Fin 1) nums)"
    using assms by (simp_all add: add_def multiply_def)
  have a: "add R L' = add R L"
    if n0: "nums = map Fin xs" and i: "\<forall>x \<in> set xs. x \<in> \<int>"
      and b: "sum_list (map abs xs) \<le> 2 ^ 53" and p: "mset L' = mset L" for L'
  proof -
    from as_list_permutation[OF assms p] obtain nums'
      where n: "as_list L' = Inr nums'" and m: "mset nums' = mset nums" by blast
    from map_Fin_permutation[OF m[unfolded n0]] obtain xs'
      where n': "nums' = map Fin xs'" and m': "mset xs' = mset xs" by blast
    have "set xs' = set xs" using m' by (rule mset_eq_setD)
    then have i': "\<forall>x \<in> set xs'. x \<in> \<int>" using i by simp
    have "mset (map abs xs') = mset (map abs xs)" using m' by simp
    then have "sum_list (map abs xs') = sum_list (map abs xs)" by (rule sum_list_permutation)
    then have "add R L' = Inr (Fin (sum_list xs'))"
      using b by (intro add_exact[OF n[unfolded n'] i']) simp
    moreover have "add R L = Inr (Fin (sum_list xs))" by (rule add_exact[OF assms[unfolded n0] i b])
    ultimately show ?thesis using sum_list_permutation[OF m'] by simp
  qed
  have t: "multiply L' = multiply L"
    if n0: "nums = map Fin xs" and  i: "\<forall>x \<in> set xs. x \<in> \<int>"
      and b: "prod_list (map (\<lambda>x. max 1 \<bar>x\<bar>) xs) \<le> 2 ^ 53"
      and p: "mset L' = mset L" for L'
  proof -
    from as_list_permutation[OF assms p] obtain nums'
      where n: "as_list L' = Inr nums'" and m: "mset nums' = mset nums" by blast
    from map_Fin_permutation[OF m[unfolded n0]] obtain xs'
      where n': "nums' = map Fin xs'" and m': "mset xs' = mset xs" by blast
    have "set xs' = set xs" using m' by (rule mset_eq_setD)
    then have i': "\<forall>x \<in> set xs'. x \<in> \<int>" using i by simp
    have "mset (map (\<lambda>x. max 1 \<bar>x\<bar>) xs') = mset (map (\<lambda>x. max 1 \<bar>x\<bar>) xs)" using m' by simp
    then have "prod_list (map (\<lambda>x. max 1 \<bar>x\<bar>) xs') = prod_list (map (\<lambda>x. max 1 \<bar>x\<bar>) xs)"
      by (rule prod_list_permutation)
    then have "multiply L' = Inr (Fin (prod_list xs'))"
      using b by (intro multiply_exact[OF n[unfolded n'] i']) simp
    moreover have "multiply L = Inr (Fin (prod_list xs))"
      by (rule multiply_exact[OF assms[unfolded n0] i b])
    ultimately show ?thesis using prod_list_permutation[OF m'] by simp
  qed
  have ae: "add R L = Inr (Fin (sum_list xs))"
    if "nums = map Fin xs" "\<forall>x \<in> set xs. x \<in> \<int>" "sum_list (map abs xs) \<le> 2 ^ 53"
    using that add_exact[of L xs R] assms by simp
  have me: "multiply L = Inr (Fin (prod_list xs))"
    if "nums = map Fin xs" "\<forall>x \<in> set xs. x \<in> \<int>" "prod_list (map (\<lambda>x. max 1 \<bar>x\<bar>) xs) \<le> 2 ^ 53"
    using that multiply_exact[of L xs] assms by simp
  show ?thesis using folds a t ae me by blast
qed

theorem add_multiply_spec_witness:
  "\<forall>R. as_list [PInt 2, PInt 3, PInt 4] = Inr [Fin 2, Fin 3, Fin 4]
     \<and> [Fin 2, Fin 3, Fin 4] = map Fin [2, 3, 4]
     \<and> (2 :: real) \<in> \<int> \<and> (3 :: real) \<in> \<int> \<and> (4 :: real) \<in> \<int>
     \<and> sum_list (map abs [2, 3, 4 :: real]) \<le> 2 ^ 53
     \<and> prod_list (map (\<lambda>x. max 1 \<bar>x\<bar>) [2, 3, 4 :: real]) \<le> 2 ^ 53
     \<and> mset [PInt 4, PInt 2, PInt 3] = mset [PInt 2, PInt 3, PInt 4]
     \<and> add R [PInt 2, PInt 3, PInt 4] = Inr (Fin 9)
     \<and> multiply [PInt 2, PInt 3, PInt 4] = Inr (Fin 24)
     \<and> add R [PInt 4, PInt 2, PInt 3] = Inr (Fin 9)
     \<and> multiply [PInt 4, PInt 2, PInt 3] = Inr (Fin 24)"
proof
  fix R
  have h: "as_list [PInt 2, PInt 3, PInt 4] = Inr [Fin 2, Fin 3, Fin 4]"
    by (simp add: as_list_def small_ints)
  have e: "[Fin 2, Fin 3, Fin 4] = map Fin [2, 3, 4]" by simp
  have i: "\<forall>x \<in> set [2, 3, 4 :: real]. x \<in> \<int>" by simp
  have s: "sum_list (map abs [2, 3, 4 :: real]) \<le> 2 ^ 53" by simp
  have q: "prod_list (map (\<lambda>x. max 1 \<bar>x\<bar>) [2, 3, 4 :: real]) \<le> 2 ^ 53" by simp
  have p: "mset [PInt 4, PInt 2, PInt 3] = mset [PInt 2, PInt 3, PInt 4]"
    by (simp add: add_mset_commute)
  note spec = add_multiply_spec[OF h, of R "[2, 3, 4]"]
  have a: "add R [PInt 2, PInt 3, PInt 4] = Inr (Fin (sum_list [2, 3, 4]))"
    and a': "add R [PInt 4, PInt 2, PInt 3] = add R [PInt 2, PInt 3, PInt 4]"
    using spec e i s p by blast+
  have m: "multiply [PInt 2, PInt 3, PInt 4] = Inr (Fin (prod_list [2, 3, 4]))"
    and m': "multiply [PInt 4, PInt 2, PInt 3] = multiply [PInt 2, PInt 3, PInt 4]"
    using spec e i q p by blast+
  have "add R [PInt 2, PInt 3, PInt 4] = Inr (Fin 9)" using a by simp
  moreover have "multiply [PInt 2, PInt 3, PInt 4] = Inr (Fin 24)" using m by simp
  ultimately show "as_list [PInt 2, PInt 3, PInt 4] = Inr [Fin 2, Fin 3, Fin 4]
     \<and> [Fin 2, Fin 3, Fin 4] = map Fin [2, 3, 4]
     \<and> (2 :: real) \<in> \<int> \<and> (3 :: real) \<in> \<int> \<and> (4 :: real) \<in> \<int>
     \<and> sum_list (map abs [2, 3, 4 :: real]) \<le> 2 ^ 53
     \<and> prod_list (map (\<lambda>x. max 1 \<bar>x\<bar>) [2, 3, 4 :: real]) \<le> 2 ^ 53
     \<and> mset [PInt 4, PInt 2, PInt 3] = mset [PInt 2, PInt 3, PInt 4]
     \<and> add R [PInt 2, PInt 3, PInt 4] = Inr (Fin 9)
     \<and> multiply [PInt 2, PInt 3, PInt 4] = Inr (Fin 24)
     \<and> add R [PInt 4, PInt 2, PInt 3] = Inr (Fin 9)
     \<and> multiply [PInt 4, PInt 2, PInt 3] = Inr (Fin 24)"
    using h s q p a' m' by simp
qed

section \<open>Booleans\<close>

lemma as_number_PBool: "as_number (PBool b) = Inr (Fin (if b then 1 else 0))"
  by simp

lemma as_int_PBool: "as_int (PBool b) = Inr (if b then 1 else 0)"
  by (simp add: as_int_def)

lemma as_numbers_PBool:
  "as_numbers (map PBool bs) = Inr (map (\<lambda>b. Fin (if b then 1 else 0)) bs)"
  by (induction bs) simp_all

lemma as_list_PBool:
  "as_list (map PBool (b # bs)) = Inr (map (\<lambda>b. Fin (if b then 1 else 0)) (b # bs))"
  using as_numbers_PBool[of "b # bs"] by (simp add: as_list_def del: as_numbers.simps)

lemma add_PBool:
  "add R (map PBool (b # bs)) = Inr (py_sum (sum_kind R) (map (\<lambda>b. Fin (if b then 1 else 0)) (b # bs)))"
  unfolding add_def as_list_PBool by simp

lemma prod_list_bools:
  "prod_list (map (\<lambda>b. if b then 1 else 0) bs) = (if False \<in> set bs then 0 else (1::real))"
  by (induction bs) auto

lemma multiply_PBool:
  "multiply (map PBool (b # bs)) = Inr (Fin (if b \<and> False \<notin> set bs then 1 else 0))"
proof -
  define xs :: "real list" where "xs = map (\<lambda>b. if b then 1 else 0) (b # bs)"
  have m: "map (\<lambda>b. Fin (if b then 1 else 0)) (b # bs) = map Fin xs"
    by (simp add: xs_def)
  have i: "\<forall>x \<in> set xs. x \<in> \<int>" by (auto simp: xs_def)
  have "map (\<lambda>x. max 1 \<bar>x\<bar>) xs = replicate (length xs) 1"
    by (rule nth_equalityI) (auto simp: xs_def nth_Cons split: nat.splits)
  then have p: "prod_list (map (\<lambda>x. max 1 \<bar>x\<bar>) xs) = 1" by simp
  have "foldl fmul (Fin 1) (map Fin xs) = Fin (1 * prod_list xs)"
    using i p by (intro foldl_fmul_exact) simp_all
  moreover have "prod_list xs = (if b \<and> False \<notin> set bs then 1 else 0)"
    using prod_list_bools[of "b # bs"] by (auto simp: xs_def)
  ultimately show ?thesis unfolding multiply_def as_list_PBool m by simp
qed

lemma subtract_PBool:
  "subtract (map PBool (b # bs))
     = Inr (foldl fsub (Fin (if b then 1 else 0)) (map (\<lambda>b. Fin (if b then 1 else 0)) bs))"
  unfolding subtract_def as_list_PBool by simp

lemma divide_loop_bools:
  "divide_loop (Fin (if b then 1 else 0)) (map (\<lambda>b. Fin (if b then 1 else 0)) bs)
     = (if False \<in> set bs then Inl DivisionByZero else Inr (Fin (if b then 1 else 0)))"
  by (induction bs) (auto simp: py_truediv_def small_ints)

lemma divide_tool_PBool:
  "divide_tool (map PBool (b # bs))
     = (if False \<in> set bs then Inl DivisionByZero else Inr (Fin (if b then 1 else 0)))"
  unfolding divide_tool_def as_list_PBool using divide_loop_bools[of b bs]
  by (simp del: divide_loop.simps)

lemma divide_multiple_PBool:
  "divide_multiple (map PBool (b # bs))
     = (if False \<in> set bs then Inl DivisionByZero else Inr (Fin (if b then 1 else 0)))"
  unfolding divide_multiple_def as_list_PBool divide_loops_equal using divide_loop_bools[of b bs]
  by (simp del: divide_loop.simps)

lemma modulo_tool_PBool:
  "modulo_tool (PBool a) (PBool b) = (if b then Inr (Fin 0) else Inl PyZeroDivisionError)"
  by (simp add: modulo_tool_def py_mod_def small_ints)

lemma power_tool_PBool:
  "power_tool R (PBool a) (PBool b) = Inr (Fin (if a \<or> \<not> b then 1 else 0))"
  by (simp add: power_tool_def)

lemma sqrt_tool_PBool: "sqrt_tool (PBool b) = Inr (Fin (if b then 1 else 0))"
  by (simp add: sqrt_tool_def small_ints)

lemma log10_PBool: "log10 (PBool b) = (if b then Inr (Fin 0) else Inl NonPositiveInput)"
  by (simp add: log10_def small_ints)

lemma log_tool_PBool_default:
  "log_tool (PBool b) None = (if b then Inr (Fin 0) else Inl NonPositiveInput)"
proof -
  define c :: real where "c = 6121026513834395 / 2 ^ 51"
  have v: "as_number log_default_base = Inr (Fin c)"
    unfolding log_default_base_def default_base_value c_def by simp
  have l: "1 / 2 \<le> ln c" "ln c \<le> 1 - 1 / 10 ^ 10"
    using ln_default_base_lower ln_default_base_upper by (simp_all add: c_def)
  have c0: "0 < c" by (simp add: c_def)
  have "m_log (Fin c) = Inr (Fin (round53 (ln c)))"
    using c0 round53_below_1(3)[OF l] by simp
  then have "math_log (Fin 1) (Fin c) = Inr (Fin 0)"
    using round53_below_1(2)[OF l] by (simp add: math_log_def py_truediv_def binary64_0)
  then show ?thesis using v by (simp add: log_tool_def)
qed

lemma log_tool_PBool_base:
  "log_tool (PBool b) (Some (PBool c))
     = (if \<not> b then Inl NonPositiveInput
        else if c then Inl PyZeroDivisionError else Inl PyValueError)"
  by (simp add: log_tool_def math_log_def py_truediv_def small_ints)

lemma factorial_PBool: "factorial R (PBool b) = Inr 1"
  by (cases "long_kind R") (simp_all add: factorial_def as_int_PBool math_factorial_def)

lemma gcd_tool_PBool: "gcd_tool (PBool a) (PBool b) = Inr (if a \<or> b then 1 else 0)"
  by (simp add: gcd_tool_def as_int_PBool)

lemma lcm_tool_PBool: "lcm_tool (PBool a) (PBool b) = Inr (if a \<and> b then 1 else 0)"
  by (simp add: lcm_tool_def as_int_PBool)

lemma sin_tool_PBool: "sin_tool R (PBool b) = Inr (Fin (libm_sin R (if b then 1 else 0)))"
  by (simp add: sin_tool_def)

lemma cos_tool_PBool: "cos_tool R (PBool b) = Inr (Fin (libm_cos R (if b then 1 else 0)))"
  by (simp add: cos_tool_def)

lemma tan_tool_PBool: "tan_tool R (PBool b) = Inr (Fin (libm_tan R (if b then 1 else 0)))"
  by (simp add: tan_tool_def)

lemma degrees_to_radians_PBool:
  "degrees_to_radians (PBool b) = Inr (fmul (Fin (if b then 1 else 0)) (fdiv math_pi (Fin 180)))"
  by (simp add: degrees_to_radians_def)

lemma radians_to_degrees_PBool:
  "radians_to_degrees (PBool b) = Inr (fmul (Fin (if b then 1 else 0)) (fdiv (Fin 180) math_pi))"
  by (simp add: radians_to_degrees_def)

lemma hypotenuse_PBool:
  "hypotenuse R (PBool a) (PBool b)
     = Inr (if a \<or> b then vector_norm R [if a then 1 else 0, if b then 1 else 0] else Fin 0)"
  by (simp add: hypotenuse_def py_vector_norm_def)

lemma circle_area_PBool:
  "circle_area R (PBool b) = Inr (fmul math_pi (Fin (if b then 1 else 0)))"
  by (simp add: circle_area_def)

lemma abs_val_PBool: "abs_val (PBool b) = Inr (Fin (if b then 1 else 0))"
  by (simp add: abs_val_def)

lemma floor_tool_PBool: "floor_tool (PBool b) = Inr (if b then 1 else 0)"
  by (simp add: floor_tool_def)

lemma ceil_PBool: "ceil (PBool b) = Inr (if b then 1 else 0)"
  by (simp add: ceil_def)

lemma round_num_PBool_default: "round_num (PBool b) None = Inr (Fin (if b then 1 else 0))"
  by (simp add: round_num_def as_int_def decimal_round_def rne_def small_ints)

lemma round_num_PBool_digits:
  "round_num (PBool b) (Some (PBool d)) = Inr (Fin (if b then 1 else 0))"
  by (simp add: round_num_def as_int_PBool decimal_round_def rne_def small_ints)

lemma random_int_PBool:
  "random_int R (PBool a) (PBool b)
     = (if a \<and> \<not> b then Inl PyValueError
        else if a = b then Inr (if a then 1 else 0)
        else Inr (int (randbelow R 2 mod 2)))"
  by (simp add: random_int_def as_int_PBool randint_def)

lemma absolute_difference_PBool:
  "absolute_difference (PBool a) (PBool b) = Inr (Fin (if a = b then 0 else 1))"
  by (simp add: absolute_difference_def fsub_def small_ints)

lemma bool_difference:
  "fabs (fsub (Fin (if a then 1 else 0)) (Fin (if b then 1 else 0))) = Fin (if a = b then 0 else 1)"
  by (simp add: fsub_def small_ints)

lemma distance_2d_PBool:
  "distance_2d R (PBool a) (PBool b) (PBool c) (PBool d)
     = Inr (if a = c \<and> b = d then Fin 0
            else vector_norm R [if a = c then 0 else 1, if b = d then 0 else 1])"
proof -
  have "as_numbers [PBool a, PBool b, PBool c, PBool d]
      = Inr [Fin (if a then 1 else 0), Fin (if b then 1 else 0),
             Fin (if c then 1 else 0), Fin (if d then 1 else 0)]"
    by simp
  then have "distance_2d R (PBool a) (PBool b) (PBool c) (PBool d)
      = Inr (py_vector_norm R [Fin (if a = c then 0 else 1), Fin (if b = d then 0 else 1)])"
    unfolding distance_2d_def math_dist_def
    by (simp add: bool_difference del: as_numbers.simps fabs.simps)
  then show ?thesis by (simp add: py_vector_norm_def)
qed

lemma distance_3d_PBool:
  "distance_3d R (PBool a) (PBool b) (PBool c) (PBool d) (PBool e) (PBool f)
     = Inr (if a = d \<and> b = e \<and> c = f then Fin 0
            else vector_norm R
              [if a = d then 0 else 1, if b = e then 0 else 1, if c = f then 0 else 1])"
proof -
  have "as_numbers [PBool a, PBool b, PBool c, PBool d, PBool e, PBool f]
      = Inr [Fin (if a then 1 else 0), Fin (if b then 1 else 0), Fin (if c then 1 else 0),
             Fin (if d then 1 else 0), Fin (if e then 1 else 0), Fin (if f then 1 else 0)]"
    by simp
  moreover have "take 3 [x1, x2, x3, x4, x5, x6] = [x1, x2, x3]"
    "drop 3 [x1, x2, x3, x4, x5, x6] = [x4, x5, x6]" for x1 x2 x3 x4 x5 x6 :: pyfloat
    by (simp_all add: numeral_3_eq_3)
  ultimately have "distance_3d R (PBool a) (PBool b) (PBool c) (PBool d) (PBool e) (PBool f)
      = Inr (py_vector_norm R [Fin (if a = d then 0 else 1), Fin (if b = e then 0 else 1),
          Fin (if c = f then 0 else 1)])"
    unfolding distance_3d_def math_dist_def
    by (simp add: bool_difference del: as_numbers.simps fabs.simps)
  then show ?thesis by (simp add: py_vector_norm_def)
qed

lemma manhattan_distance_PBool:
  "manhattan_distance R (map PBool (a # as)) (map PBool (b # bs))
     = (if length as = length bs
        then Inr (py_sum (sum_kind R)
               (map (\<lambda>(x, y). Fin (if x = y then 0 else 1)) (zip (a # as) (b # bs))))
        else Inl DimensionMismatch)"
proof -
  have "map (\<lambda>(x, y). fabs (fsub x y))
          (zip (map (\<lambda>b. Fin (if b then 1 else 0)) xs) (map (\<lambda>b. Fin (if b then 1 else 0)) ys))
      = map (\<lambda>(x, y). Fin (if x = y then 0 else 1)) (zip xs ys)" for xs ys
    unfolding zip_map_map map_map comp_def
    by (rule map_cong) (auto simp: bool_difference simp del: fabs.simps)
  from this[of "a # as" "b # bs"] show ?thesis
    unfolding manhattan_distance_def as_list_PBool
    by (simp del: fabs.simps list.map zip_Cons_Cons add: list.map[symmetric])
qed

lemma exact_values_PBool:
  "those (map exact_value (map PBool bs)) = Some (map (\<lambda>b. if b then 1 else 0) bs)"
  by (induction bs) simp_all

lemma integral_PBool: "list_all is_integral (map PBool bs)"
  by (induction bs) simp_all

lemma sum_list_unit_interval:
  "\<forall>x \<in> set xs. 0 \<le> x \<and> x \<le> (1::real) \<Longrightarrow> 0 \<le> sum_list xs \<and> sum_list xs \<le> real (length xs)"
  by (induction xs) auto

lemma exact_mean_unit_interval:
  assumes "xs \<noteq> []" and "\<forall>x \<in> set xs. 0 \<le> x \<and> x \<le> (1::real)"
  shows "0 \<le> exact_mean xs" and "exact_mean xs \<le> 1"
proof -
  have n: "0 < real (length xs)" using assms(1) by simp
  have s: "0 \<le> sum_list xs" "sum_list xs \<le> real (length xs)"
    using sum_list_unit_interval[OF assms(2)] by simp_all
  show "0 \<le> exact_mean xs" unfolding exact_mean_def using s(1) n by simp
  show "exact_mean xs \<le> 1" unfolding exact_mean_def using s(2) n by simp
qed

lemma exact_variance_unit_interval:
  assumes "2 \<le> length xs" and "\<forall>x \<in> set xs. 0 \<le> x \<and> x \<le> (1::real)"
  shows "0 \<le> exact_variance xs" and "exact_variance xs \<le> 2"
proof -
  define m where "m = exact_mean xs"
  have ne: "xs \<noteq> []" using assms(1) by auto
  have m: "0 \<le> m" "m \<le> 1" using exact_mean_unit_interval[OF ne assms(2)] by (simp_all add: m_def)
  have sq: "0 \<le> (x - m)\<^sup>2 \<and> (x - m)\<^sup>2 \<le> 1" if "x \<in> set xs" for x
  proof -
    have "\<bar>x - m\<bar> \<le> 1" using that assms(2) m by (auto simp: abs_le_iff)
    then have "(x - m)\<^sup>2 \<le> 1\<^sup>2" by (simp only: abs_le_square_iff[symmetric] abs_one)
    then show ?thesis by simp
  qed
  then have "\<forall>y \<in> set (map (\<lambda>x. (x - m)\<^sup>2) xs). 0 \<le> y \<and> y \<le> 1" by auto
  from sum_list_unit_interval[OF this]
  have s: "0 \<le> sum_list (map (\<lambda>x. (x - m)\<^sup>2) xs)"
    "sum_list (map (\<lambda>x. (x - m)\<^sup>2) xs) \<le> real (length xs)" by simp_all
  have d: "0 < real (length xs) - 1" using assms(1) by simp
  show "0 \<le> exact_variance xs" unfolding exact_variance_def m_def[symmetric] using s(1) d by simp
  have "real (length xs) \<le> 2 * (real (length xs) - 1)" using assms(1) by simp
  then have "sum_list (map (\<lambda>x. (x - m)\<^sup>2) xs) \<le> 2 * (real (length xs) - 1)"
    using s(2) by linarith
  then show "exact_variance xs \<le> 2"
    unfolding exact_variance_def m_def[symmetric] using d by (simp add: pos_divide_le_eq)
qed

lemma binary64_small:
  assumes "\<bar>x\<bar> \<le> 2"
  shows "\<exists>y. binary64 x = Fin y"
proof -
  have "(2::real) ^ 1 \<le> 2 ^ 1023" by (rule power_increasing) simp_all
  then have "\<bar>x\<bar> \<le> 2 ^ 1023" using assms by (simp only: power_one_right)
  then show ?thesis by (rule binary64_finite)
qed

lemma to_float_binary64: "binary64 q = Fin y \<Longrightarrow> to_float q = Inr y"
  by (simp add: to_float_def)

lemma convert_result_binary64:
  assumes "binary64 q = Fin y" and "\<bar>q\<bar> \<le> 2"
  shows "convert_result data q = Inr y"
proof (cases "list_all is_integral data \<and> of_int \<lfloor>q\<rfloor> = q")
  case True
  then have "q \<in> \<int>" by (metis Ints_of_int)
  moreover have "\<bar>q\<bar> \<le> 2 ^ 53" using assms(2) by simp
  ultimately have "binary64 q = Fin q" by (rule binary64_Ints)
  then have "y = q" using assms(1) by simp
  then show ?thesis using True by (simp add: convert_result_def)
next
  case False
  then show ?thesis using to_float_binary64[OF assms(1)] by (auto simp: convert_result_def)
qed

lemma bool_values_unit_interval:
  "\<forall>x \<in> set (map (\<lambda>b. if b then 1 else 0) bs). 0 \<le> x \<and> x \<le> (1::real)"
  by auto

lemma mean_PBool:
  "\<exists>y. binary64 (exact_mean (map (\<lambda>b. if b then 1 else 0) (b # bs))) = Fin y
       \<and> mean (map PBool (b # bs)) = Inr y"
proof -
  define xs :: "real list" where "xs = map (\<lambda>b. if b then 1 else 0) (b # bs)"
  have ne: "xs \<noteq> []" by (simp add: xs_def)
  have u: "\<forall>x \<in> set xs. 0 \<le> x \<and> x \<le> 1" unfolding xs_def by (rule bool_values_unit_interval)
  have q: "\<bar>exact_mean xs\<bar> \<le> 2" using exact_mean_unit_interval[OF ne u] by simp
  then obtain y where y: "binary64 (exact_mean xs) = Fin y" using binary64_small by blast
  have "statistics_mean (map PBool (b # bs)) = convert_result (map PBool (b # bs)) (exact_mean xs)"
    unfolding statistics_mean_def exact_values_PBool xs_def by simp
  then have "mean (map PBool (b # bs)) = Inr y"
    using convert_result_binary64[OF y q] by (simp add: mean_def)
  then show ?thesis using y unfolding xs_def by blast
qed

lemma variance_PBool:
  "\<exists>y. binary64 (exact_variance (map (\<lambda>b. if b then 1 else 0) (a # b # bs))) = Fin y
       \<and> variance (map PBool (a # b # bs)) = Inr y"
proof -
  define xs :: "real list" where "xs = map (\<lambda>b. if b then 1 else 0) (a # b # bs)"
  have l: "2 \<le> length xs" by (simp add: xs_def)
  have u: "\<forall>x \<in> set xs. 0 \<le> x \<and> x \<le> 1" unfolding xs_def by (rule bool_values_unit_interval)
  have q: "\<bar>exact_variance xs\<bar> \<le> 2" using exact_variance_unit_interval[OF l u] by simp
  then obtain y where y: "binary64 (exact_variance xs) = Fin y" using binary64_small by blast
  have "statistics_variance (map PBool (a # b # bs))
      = convert_result (map PBool (a # b # bs)) (exact_variance xs)"
    unfolding statistics_variance_def exact_values_PBool xs_def by simp
  then have "variance (map PBool (a # b # bs)) = Inr y"
    using convert_result_binary64[OF y q] by (simp add: variance_def)
  then show ?thesis using y unfolding xs_def by blast
qed

lemma stdev_PBool:
  "\<exists>y. binary64 (sqrt (exact_variance (map (\<lambda>b. if b then 1 else 0) (a # b # bs)))) = Fin y
       \<and> stdev (map PBool (a # b # bs)) = Inr y"
proof -
  define xs :: "real list" where "xs = map (\<lambda>b. if b then 1 else 0) (a # b # bs)"
  have l: "2 \<le> length xs" by (simp add: xs_def)
  have u: "\<forall>x \<in> set xs. 0 \<le> x \<and> x \<le> 1" unfolding xs_def by (rule bool_values_unit_interval)
  note v = exact_variance_unit_interval[OF l u]
  have "sqrt (exact_variance xs) \<le> sqrt 4" using v(2) by (intro real_sqrt_le_mono) simp
  then have "sqrt (exact_variance xs) \<le> 2" by simp
  moreover have "0 \<le> sqrt (exact_variance xs)" using v(1) by simp
  ultimately have q: "\<bar>sqrt (exact_variance xs)\<bar> \<le> 2" by simp
  then obtain y where y: "binary64 (sqrt (exact_variance xs)) = Fin y"
    using binary64_small by blast
  have "statistics_stdev (map PBool (a # b # bs)) = to_float (sqrt (exact_variance xs))"
    unfolding statistics_stdev_def exact_values_PBool xs_def by simp
  then have "stdev (map PBool (a # b # bs)) = Inr y"
    using to_float_binary64[OF y] by (simp add: stdev_def)
  then show ?thesis using y unfolding xs_def by blast
qed

lemma py_insort_PBool:
  "\<exists>zs. py_insort (PBool x) (map PBool ys) = Inr (map PBool zs) \<and> length zs = Suc (length ys)"
proof (induction ys)
  case Nil
  have "py_insort (PBool x) (map PBool []) = Inr (map PBool [x])" by simp
  then show ?case by (metis length_Cons list.size(3))
next
  case (Cons y ys)
  then obtain zs where zs: "py_insort (PBool x) (map PBool ys) = Inr (map PBool zs)"
    "length zs = Suc (length ys)" by blast
  show ?case
  proof (cases "(if x then 1 else 0 :: real) < (if y then 1 else 0)")
    case True
    then have "py_insort (PBool x) (map PBool (y # ys)) = Inr (map PBool (x # y # ys))" by simp
    then show ?thesis by (metis length_Cons)
  next
    case False
    then have "py_insort (PBool x) (map PBool (y # ys)) = Inr (map PBool (y # zs))"
      using zs(1) by simp
    then show ?thesis using zs(2) by (metis length_Cons)
  qed
qed

lemma py_sort_from_PBool:
  "\<exists>zs. py_sort_from (map PBool acc) (map PBool xs) = Inr (map PBool zs)
        \<and> length zs = length acc + length xs"
proof (induction xs arbitrary: acc)
  case Nil
  have "py_sort_from (map PBool acc) (map PBool []) = Inr (map PBool acc)" by simp
  then show ?case by (metis add.right_neutral list.size(3))
next
  case (Cons x xs)
  from py_insort_PBool[of x acc] obtain ws
    where ws: "py_insort (PBool x) (map PBool acc) = Inr (map PBool ws)"
      "length ws = Suc (length acc)" by blast
  from Cons.IH[of ws] obtain zs
    where zs: "py_sort_from (map PBool ws) (map PBool xs) = Inr (map PBool zs)"
      "length zs = length ws + length xs" by blast
  have "py_sort_from (map PBool acc) (map PBool (x # xs)) = Inr (map PBool zs)"
    using ws(1) zs(1) by simp
  moreover have "length zs = length acc + length (x # xs)" using ws(2) zs(2) by simp
  ultimately show ?case by blast
qed

lemma py_halve_bools:
  "\<exists>f. py_halve (Int_sum ((if x then 1 else 0) + (if y then 1 else 0))) = Inr f"
proof -
  define k :: int where "k = (if x then 1 else 0) + (if y then 1 else 0)"
  have "\<bar>real_of_int k / 2\<bar> \<le> 2" by (simp add: k_def)
  then obtain r where "binary64 (real_of_int k / 2) = Fin r" using binary64_small by blast
  then have "py_halve (Int_sum k) = Inr (Fin r)" by simp
  then show ?thesis unfolding k_def by blast
qed

lemma median_PBool: "\<exists>y. median (map PBool (b # bs)) = Inr y"
proof -
  from py_sort_from_PBool[of "[]" "b # bs"] obtain zs
    where zs: "py_sorted (map PBool (b # bs)) = Inr (map PBool zs)"
      "length zs = Suc (length bs)" by (auto simp: py_sorted_def)
  have n: "0 < length zs" "zs \<noteq> []" using zs(2) by auto
  show ?thesis
  proof (cases "length zs mod 2 = 1")
    case True
    then have "statistics_median (map PBool (b # bs))
        = Inr (Elem (map PBool zs ! (length zs div 2)))"
      using n unfolding statistics_median_def zs(1) by (simp add: Let_def)
    then show ?thesis by (simp add: median_def)
  next
    case False
    define i where "i = length zs div 2 - Suc 0"
    define j where "j = length zs div 2"
    have "length zs div 2 < length zs" using n(1) by (rule div_less_dividend[rotated]) simp
    then have ij: "i < length zs" "j < length zs" unfolding i_def j_def by linarith+
    from py_halve_bools[of "zs ! i" "zs ! j"] obtain f
      where f: "py_halve (Int_sum ((if zs ! i then 1 else 0) + (if zs ! j then 1 else 0))) = Inr f"
      by blast
    have p: "py_add (PBool x) (PBool y) = Inr (Int_sum ((if x then 1 else 0) + (if y then 1 else 0)))"
      for x y by (simp add: py_add_def)
    have "py_add (map PBool zs ! i) (map PBool zs ! j)
        = Inr (Int_sum ((if zs ! i then 1 else 0) + (if zs ! j then 1 else 0)))"
      using ij p by simp
    then have "statistics_median (map PBool (b # bs)) = Inr (Float_out f)"
      using n False f unfolding statistics_median_def zs(1)
      by (simp add: Let_def i_def j_def ij[unfolded i_def j_def] del: py_halve.simps)
    then show ?thesis by (simp add: median_def)
  qed
qed

text \<open>
  Claim C10. \<^verbatim>\<open>_as_number\<close> accepts the booleans: \<^verbatim>\<open>True\<close> gives 1.0 and \<^verbatim>\<open>False\<close>
  gives 0.0, never \<open>InvalidNumber\<close>, and \<^verbatim>\<open>_as_int\<close> and \<^verbatim>\<open>_as_list\<close> accept them
  with it. Every tool that takes numbers accepts booleans in their place: on boolean
  arguments each of the 33 tools returns the result written below, which is the one it
  returns on the floats 1.0 and 0.0. The only failures are those of these floats
  (division by zero, a logarithm at zero or to the base 0 or 1, an empty range); the
  statistics tools, which do not call \<^verbatim>\<open>_as_number\<close>, return the float nearest to
  the exact statistic of the values 1 and 0.
\<close>

theorem booleans_are_numbers:
  "as_number (PBool True) = Inr (Fin 1) \<and> as_number (PBool False) = Inr (Fin 0)
   \<and> as_number (PBool b) = Inr (Fin (if b then 1 else 0))
   \<and> as_number (PBool b) \<noteq> Inl (InvalidNumber v)
   \<and> as_int (PBool b) = Inr (if b then 1 else 0)
   \<and> as_list (map PBool (b # bs)) = Inr (map (\<lambda>b. Fin (if b then 1 else 0)) (b # bs))
   \<and> add R (map PBool (b # bs))
       = Inr (py_sum (sum_kind R) (map (\<lambda>b. Fin (if b then 1 else 0)) (b # bs)))
   \<and> multiply (map PBool (b # bs)) = Inr (Fin (if b \<and> False \<notin> set bs then 1 else 0))
   \<and> subtract (map PBool (b # bs))
       = Inr (foldl fsub (Fin (if b then 1 else 0)) (map (\<lambda>b. Fin (if b then 1 else 0)) bs))
   \<and> divide_tool (map PBool (b # bs))
       = (if False \<in> set bs then Inl DivisionByZero else Inr (Fin (if b then 1 else 0)))
   \<and> divide_multiple (map PBool (b # bs))
       = (if False \<in> set bs then Inl DivisionByZero else Inr (Fin (if b then 1 else 0)))
   \<and> modulo_tool (PBool b) (PBool c) = (if c then Inr (Fin 0) else Inl PyZeroDivisionError)
   \<and> power_tool R (PBool b) (PBool c) = Inr (Fin (if b \<or> \<not> c then 1 else 0))
   \<and> sqrt_tool (PBool b) = Inr (Fin (if b then 1 else 0))
   \<and> log_tool (PBool b) None = (if b then Inr (Fin 0) else Inl NonPositiveInput)
   \<and> log_tool (PBool b) (Some (PBool c))
       = (if \<not> b then Inl NonPositiveInput
          else if c then Inl PyZeroDivisionError else Inl PyValueError)
   \<and> log10 (PBool b) = (if b then Inr (Fin 0) else Inl NonPositiveInput)
   \<and> factorial R (PBool b) = Inr 1
   \<and> gcd_tool (PBool b) (PBool c) = Inr (if b \<or> c then 1 else 0)
   \<and> lcm_tool (PBool b) (PBool c) = Inr (if b \<and> c then 1 else 0)
   \<and> sin_tool R (PBool b) = Inr (Fin (libm_sin R (if b then 1 else 0)))
   \<and> cos_tool R (PBool b) = Inr (Fin (libm_cos R (if b then 1 else 0)))
   \<and> tan_tool R (PBool b) = Inr (Fin (libm_tan R (if b then 1 else 0)))
   \<and> degrees_to_radians (PBool b)
       = Inr (fmul (Fin (if b then 1 else 0)) (fdiv math_pi (Fin 180)))
   \<and> radians_to_degrees (PBool b)
       = Inr (fmul (Fin (if b then 1 else 0)) (fdiv (Fin 180) math_pi))
   \<and> (\<exists>y. binary64 (exact_mean (map (\<lambda>b. if b then 1 else 0) (b # bs))) = Fin y
          \<and> mean (map PBool (b # bs)) = Inr y)
   \<and> (\<exists>y. median (map PBool (b # bs)) = Inr y)
   \<and> (\<exists>y. binary64 (sqrt (exact_variance (map (\<lambda>b. if b then 1 else 0) (b # c # bs)))) = Fin y
          \<and> stdev (map PBool (b # c # bs)) = Inr y)
   \<and> (\<exists>y. binary64 (exact_variance (map (\<lambda>b. if b then 1 else 0) (b # c # bs))) = Fin y
          \<and> variance (map PBool (b # c # bs)) = Inr y)
   \<and> hypotenuse R (PBool b) (PBool c)
       = Inr (if b \<or> c then vector_norm R [if b then 1 else 0, if c then 1 else 0] else Fin 0)
   \<and> distance_2d R (PBool b) (PBool c) (PBool d) (PBool e)
       = Inr (if b = d \<and> c = e then Fin 0
              else vector_norm R [if b = d then 0 else 1, if c = e then 0 else 1])
   \<and> circle_area R (PBool b) = Inr (fmul math_pi (Fin (if b then 1 else 0)))
   \<and> abs_val (PBool b) = Inr (Fin (if b then 1 else 0))
   \<and> floor_tool (PBool b) = Inr (if b then 1 else 0)
   \<and> ceil (PBool b) = Inr (if b then 1 else 0)
   \<and> round_num (PBool b) None = Inr (Fin (if b then 1 else 0))
   \<and> round_num (PBool b) (Some (PBool c)) = Inr (Fin (if b then 1 else 0))
   \<and> random_int R (PBool b) (PBool c)
       = (if b \<and> \<not> c then Inl PyValueError
          else if b = c then Inr (if b then 1 else 0)
          else Inr (int (randbelow R 2 mod 2)))
   \<and> distance_3d R (PBool b) (PBool c) (PBool d) (PBool e) (PBool f) (PBool g)
       = Inr (if b = e \<and> c = f \<and> d = g then Fin 0
              else vector_norm R
                [if b = e then 0 else 1, if c = f then 0 else 1, if d = g then 0 else 1])
   \<and> manhattan_distance R (map PBool (b # bs)) (map PBool (c # cs))
       = (if length bs = length cs
          then Inr (py_sum (sum_kind R)
                 (map (\<lambda>(x, y). Fin (if x = y then 0 else 1)) (zip (b # bs) (c # cs))))
          else Inl DimensionMismatch)
   \<and> absolute_difference (PBool b) (PBool c) = Inr (Fin (if b = c then 0 else 1))"
proof -
  have t: "as_number (PBool True) = Inr (Fin 1)" "as_number (PBool False) = Inr (Fin 0)"
    "as_number (PBool b) \<noteq> Inl (InvalidNumber v)"
    by simp_all
  note facts = t as_number_PBool as_int_PBool as_list_PBool add_PBool multiply_PBool
    subtract_PBool divide_tool_PBool divide_multiple_PBool modulo_tool_PBool power_tool_PBool
    sqrt_tool_PBool log_tool_PBool_default log_tool_PBool_base log10_PBool factorial_PBool
    gcd_tool_PBool lcm_tool_PBool sin_tool_PBool cos_tool_PBool tan_tool_PBool
    degrees_to_radians_PBool radians_to_degrees_PBool mean_PBool median_PBool stdev_PBool
    variance_PBool hypotenuse_PBool distance_2d_PBool circle_area_PBool abs_val_PBool
    floor_tool_PBool ceil_PBool round_num_PBool_default round_num_PBool_digits
    random_int_PBool distance_3d_PBool manhattan_distance_PBool absolute_difference_PBool
  show ?thesis by (intro conjI facts)
qed

end
